theory Spec2Isabelle
  imports Complex_Main
begin

section \<open>Preprocessing: removal of invisible characters\<close>

text \<open>
  \<^verbatim>\<open>src/src/preprocessing.py\<close>, \<^verbatim>\<open>remove_invisible_characters\<close>.
  A Python \<^verbatim>\<open>str\<close> is a sequence of Unicode code points; a code point is modelled
  as a natural number and a string as the list of its code points.
\<close>

type_synonym codepoint = nat
type_synonym ustring = "codepoint list"

text \<open>
  The character class of the pattern \<^verbatim>\<open>invisible_chars_pattern\<close>, written in the
  source with the escapes u200B, u200C, u200D, uFEFF, u200E, u200F, in that order.
\<close>

definition invisible_chars_pattern :: "codepoint list" where
  "invisible_chars_pattern = [0x200B, 0x200C, 0x200D, 0xFEFF, 0x200E, 0x200F]"

text \<open>
  \<^verbatim>\<open>re.sub(cls, '', content)\<close> for a pattern that is one character class: the scan
  goes left to right; a character of the class is a match and is replaced by the
  empty string, any other character is copied.
\<close>

fun re_sub_class_empty :: "codepoint list \<Rightarrow> ustring \<Rightarrow> ustring" where
  "re_sub_class_empty cls [] = []"
| "re_sub_class_empty cls (c # cs) =
     (if c \<in> set cls then re_sub_class_empty cls cs
      else c # re_sub_class_empty cls cs)"

definition remove_invisible_characters :: "ustring \<Rightarrow> ustring" where
  "remove_invisible_characters content =
     re_sub_class_empty invisible_chars_pattern content"

section \<open>Rasterizer: the name of the output bitmap\<close>

text \<open>
  \<^verbatim>\<open>src/src/render_div_as_image.py\<close>, \<^verbatim>\<open>main\<close>, lines 373-376:
  \<^verbatim>\<open>os.path.join(tempfile.gettempdir(),
       f"div_render_pillow_{os.getpid()}_{slide_index or 0}_{div_index or 0}.png")\<close>.
  The decimal text of an integer, as \<^verbatim>\<open>str\<close> and an f-string produce it.
\<close>

definition digit_char :: "nat \<Rightarrow> char" where
  "digit_char d = char_of (48 + d)"

fun str_nat :: "nat \<Rightarrow> string" where
  "str_nat n = (if n < 10 then [digit_char n] else str_nat (n div 10) @ [digit_char (n mod 10)])"

declare str_nat.simps [simp del]

definition str_int :: "int \<Rightarrow> string" where
  "str_int i = (if i < 0 then CHR ''-'' # str_nat (nat (- i)) else str_nat (nat i))"

text \<open>
  \<^verbatim>\<open>slide_index or 0\<close> on an \<^verbatim>\<open>Optional[int]\<close>: \<^verbatim>\<open>None\<close> and \<^verbatim>\<open>0\<close> are both falsy.
\<close>

definition or_zero :: "int option \<Rightarrow> int" where
  "or_zero x = (case x of None \<Rightarrow> 0 | Some v \<Rightarrow> if v \<noteq> 0 then v else 0)"

text \<open>\<^verbatim>\<open>os.path.join\<close> of two components (POSIX).\<close>

definition os_path_join :: "string \<Rightarrow> string \<Rightarrow> string" where
  "os_path_join a b =
     (if b \<noteq> [] \<and> hd b = CHR ''/'' then b
      else if a = [] \<or> last a = CHR ''/'' then a @ b
      else a @ ''/'' @ b)"

text \<open>
  The process id and the temporary directory are fixed for one process; they are
  arguments of the model.
\<close>

definition png_path :: "string \<Rightarrow> int \<Rightarrow> int option \<Rightarrow> int option \<Rightarrow> string" where
  "png_path tmpdir pid slide_index div_index =
     os_path_join tmpdir
       (''div_render_pillow_'' @ str_int pid @ ''_'' @ str_int (or_zero slide_index)
          @ ''_'' @ str_int (or_zero div_index) @ ''.png'')"

text \<open>Reading a decimal text back, used to show that the text determines the number.\<close>

definition digit_val :: "char \<Rightarrow> nat" where
  "digit_val c = of_char c - 48"

definition nat_of_digits :: "string \<Rightarrow> nat" where
  "nat_of_digits s = foldl (\<lambda>a c. 10 * a + digit_val c) 0 s"

section \<open>Rasterizer: text helpers\<close>

text \<open>
  \<^verbatim>\<open>src/src/render_div_as_image.py\<close> works on Python strings with \<^verbatim>\<open>re\<close> and
  \<^verbatim>\<open>str\<close> methods. Stylesheet and style text is modelled as \<^typ>\<open>string\<close>; a
  character stands for the code point of the same number (U+0000 to U+00FF), and the
  character classes below are Python's classes on that range.
\<close>

text \<open>\<^verbatim>\<open>\s\<close> and the characters removed by \<^verbatim>\<open>str.strip()\<close>.\<close>

definition is_space :: "char \<Rightarrow> bool" where
  "is_space c = (let n = (of_char c :: nat) in
     (9 \<le> n \<and> n \<le> 13) \<or> (28 \<le> n \<and> n \<le> 32) \<or> n = 133 \<or> n = 160)"

text \<open>\<^verbatim>\<open>\d\<close>.\<close>

definition is_digit :: "char \<Rightarrow> bool" where
  "is_digit c = (let n = (of_char c :: nat) in 48 \<le> n \<and> n \<le> 57)"

text \<open>The class \<^verbatim>\<open>[0-9A-Za-z_-]\<close>.\<close>

definition is_ident_char :: "char \<Rightarrow> bool" where
  "is_ident_char c = (let n = (of_char c :: nat) in
     (48 \<le> n \<and> n \<le> 57) \<or> (65 \<le> n \<and> n \<le> 90) \<or> (97 \<le> n \<and> n \<le> 122)
     \<or> c = CHR ''_'' \<or> c = CHR ''-'')"

definition strip :: "string \<Rightarrow> string" where
  "strip s = rev (dropWhile is_space (rev (dropWhile is_space s)))"

text \<open>\<^verbatim>\<open>s.split(c)\<close> for a one-character separator: one more piece than separators.\<close>

fun split_on :: "char \<Rightarrow> string \<Rightarrow> string list" where
  "split_on c [] = [[]]"
| "split_on c (x # xs) =
     (if x = c then [] # split_on c xs
      else (x # hd (split_on c xs)) # tl (split_on c xs))"

fun starts_with :: "string \<Rightarrow> string \<Rightarrow> bool" where
  "starts_with [] s = True"
| "starts_with (t # ts) [] = False"
| "starts_with (t # ts) (c # cs) = (t = c \<and> starts_with ts cs)"

section \<open>Rasterizer: the declaration block for a class\<close>

text \<open>
  \<^verbatim>\<open>_css_block_for_class\<close>. The loop runs over
  \<^verbatim>\<open>re.finditer(r"([^{]+)\{([^}]+)\}", css)\<close>. One attempt of that pattern: skip the
  characters \<^verbatim>\<open>{\<close>, at which no match can start; the first group is the longest run
  without \<^verbatim>\<open>{\<close>, which must be followed by \<^verbatim>\<open>{\<close>; the second group is the longest
  run without \<^verbatim>\<open>}\<close>, which must be non-empty and followed by \<^verbatim>\<open>}\<close>. A shorter
  run never helps, since the character after it would not be the brace. On success
  the scan goes on after the closing brace; on failure no start before the opening
  brace can match either, and the scan goes on after the opening brace. The result is
  \<open>None\<close> when the scan is over, else the match found (if any) and the rest to scan.
\<close>

definition next_rule :: "string \<Rightarrow> ((string \<times> string) option \<times> string) option" where
  "next_rule s =
     (let s1 = dropWhile (\<lambda>c. c = CHR ''{'') s;
          selectors = takeWhile (\<lambda>c. c \<noteq> CHR ''{'') s1;
          r = dropWhile (\<lambda>c. c \<noteq> CHR ''{'') s1
      in if r = [] then None
         else let r1 = tl r;
                  body = takeWhile (\<lambda>c. c \<noteq> CHR ''}'') r1;
                  r2 = dropWhile (\<lambda>c. c \<noteq> CHR ''}'') r1
              in if body \<noteq> [] \<and> r2 \<noteq> [] then Some (Some (selectors, body), tl r2)
                 else Some (None, r1))"

text \<open>The list of all matches of the pattern, left to right.\<close>

function css_rules :: "string \<Rightarrow> (string \<times> string) list" where
  "css_rules s =
     (case next_rule s of
        None \<Rightarrow> []
      | Some (None, rest) \<Rightarrow> css_rules rest
      | Some (Some m, rest) \<Rightarrow> m # css_rules rest)"
  by pat_completeness auto
termination
proof -
  have shorter: "length rest < length s" if a: "next_rule s = Some (m, rest)" for s m rest
  proof -
    define s1 where "s1 = dropWhile (\<lambda>c. c = CHR ''{'') s"
    define r where "r = dropWhile (\<lambda>c. c \<noteq> CHR ''{'') s1"
    define r2 where "r2 = dropWhile (\<lambda>c. c \<noteq> CHR ''}'') (tl r)"
    have unf: "next_rule s =
        (if r = [] then None
         else if takeWhile (\<lambda>c. c \<noteq> CHR ''}'') (tl r) \<noteq> [] \<and> r2 \<noteq> []
              then Some (Some (takeWhile (\<lambda>c. c \<noteq> CHR ''{'') s1,
                               takeWhile (\<lambda>c. c \<noteq> CHR ''}'') (tl r)), tl r2)
              else Some (None, tl r))"
      unfolding next_rule_def Let_def s1_def r_def r2_def ..
    from a have ne: "r \<noteq> []" and cases: "rest = tl r2 \<and> r2 \<noteq> [] \<or> rest = tl r"
      unfolding unf by (simp_all split: if_splits)
    have "length r \<le> length s1" unfolding r_def by (rule length_dropWhile_le)
    also have "\<dots> \<le> length s" unfolding s1_def by (rule length_dropWhile_le)
    finally have len_r: "length r \<le> length s" .
    from ne have r1: "length (tl r) < length s" using len_r by (cases r) simp_all
    have "length r2 \<le> length (tl r)" unfolding r2_def by (rule length_dropWhile_le)
    then have "r2 \<noteq> [] \<Longrightarrow> length (tl r2) < length s" using r1 by (cases r2) simp_all
    with r1 cases show ?thesis by blast
  qed
  show ?thesis
    by (relation "measure length") (auto dest: shorter)
qed

declare css_rules.simps [simp del]

text \<open>
  \<^verbatim>\<open>re.search(rf"(^|[^0-9A-Za-z_-])\.{re.escape(class_name)}($|[^0-9A-Za-z_-])", s)\<close>
  read as a truth value. \<open>token_here tok s\<close>: the text \<open>tok\<close> stands at the front of \<open>s\<close>
  and is followed by the end of the text or by a character outside the class.
  \<open>search_bounded tok prev s\<close> tries every start from left to right; \<open>prev\<close> is the
  character before the current position, \<open>None\<close> at the start of the text.
\<close>

definition token_here :: "string \<Rightarrow> string \<Rightarrow> bool" where
  "token_here tok s =
     (starts_with tok s \<and>
      (case drop (length tok) s of [] \<Rightarrow> True | c # _ \<Rightarrow> \<not> is_ident_char c))"

definition left_bounded :: "char option \<Rightarrow> bool" where
  "left_bounded prev = (case prev of None \<Rightarrow> True | Some p \<Rightarrow> \<not> is_ident_char p)"

fun search_bounded :: "string \<Rightarrow> char option \<Rightarrow> string \<Rightarrow> bool" where
  "search_bounded tok prev [] = (left_bounded prev \<and> token_here tok [])"
| "search_bounded tok prev (c # cs) =
     ((left_bounded prev \<and> token_here tok (c # cs)) \<or> search_bounded tok (Some c) cs)"

definition selector_has_class :: "string \<Rightarrow> string \<Rightarrow> bool" where
  "selector_has_class class_name s = search_bounded (CHR ''.'' # class_name) None s"

text \<open>
  The two nested loops with their early \<^verbatim>\<open>return body\<close>, over the matches in order.
\<close>

fun first_block_for_class :: "string \<Rightarrow> (string \<times> string) list \<Rightarrow> string option" where
  "first_block_for_class class_name [] = None"
| "first_block_for_class class_name ((selectors, body) # ms) =
     (if list_ex (selector_has_class class_name) (map strip (split_on CHR '','' selectors))
      then Some body
      else first_block_for_class class_name ms)"

definition css_block_for_class :: "string option \<Rightarrow> string \<Rightarrow> string option" where
  "css_block_for_class css class_name =
     (case css of
        None \<Rightarrow> None
      | Some text \<Rightarrow> if text = [] then None
                     else first_block_for_class class_name (css_rules text))"

text \<open>
  The reading of the selector contract: the token \<open>tok\<close> occurs in \<open>s\<close> with, on each
  side, the end of the text or a character that is not an identifier character.
\<close>

definition bounded_occurrence :: "string \<Rightarrow> string \<Rightarrow> bool" where
  "bounded_occurrence tok s \<longleftrightarrow>
     (\<exists>pre post. s = pre @ tok @ post
        \<and> (pre = [] \<or> \<not> is_ident_char (last pre))
        \<and> (post = [] \<or> \<not> is_ident_char (hd post)))"

definition rule_names_class :: "string \<Rightarrow> string \<times> string \<Rightarrow> bool" where
  "rule_names_class class_name rule \<longleftrightarrow>
     (\<exists>sel \<in> set (split_on CHR '','' (fst rule)).
        bounded_occurrence (CHR ''.'' # class_name) (strip sel))"

text \<open>A stylesheet written as a sequence of rules \<^verbatim>\<open>selectors{body}\<close>.\<close>

definition render_rules :: "(string \<times> string) list \<Rightarrow> string" where
  "render_rules rs = concat (map (\<lambda>(sel, body). sel @ ''{'' @ body @ ''}'') rs)"

definition plain_rule :: "string \<times> string \<Rightarrow> bool" where
  "plain_rule rule \<longleftrightarrow>
     fst rule \<noteq> [] \<and> snd rule \<noteq> []
     \<and> CHR ''{'' \<notin> set (fst rule) \<and> CHR ''}'' \<notin> set (snd rule)"

section \<open>Rasterizer: pattern matching on style text\<close>

text \<open>
  \<^verbatim>\<open>re.search\<close> tries the pattern at every position from left to right, the end of
  the text included; \<open>m\<close> is one attempt at the front of the remaining text.
\<close>

fun search_from :: "(string \<Rightarrow> 'a option) \<Rightarrow> string \<Rightarrow> 'a option" where
  "search_from m [] = m []"
| "search_from m (c # cs) =
     (case m (c # cs) of Some r \<Rightarrow> Some r | None \<Rightarrow> search_from m cs)"

text \<open>A literal at the front of the text; the result is the text after it.\<close>

fun strip_prefix :: "string \<Rightarrow> string \<Rightarrow> string option" where
  "strip_prefix [] s = Some s"
| "strip_prefix (p # ps) [] = None"
| "strip_prefix (p # ps) (c # cs) = (if c = p then strip_prefix ps cs else None)"

text \<open>
  The same under \<^verbatim>\<open>re.IGNORECASE\<close>. The literals of the source are ASCII letters and
  punctuation, which match themselves and their other ASCII case only.
\<close>

definition ascii_lower :: "char \<Rightarrow> char" where
  "ascii_lower c = (let n = (of_char c :: nat) in
     if 65 \<le> n \<and> n \<le> 90 then char_of (n + 32) else c)"

fun strip_prefix_ci :: "string \<Rightarrow> string \<Rightarrow> string option" where
  "strip_prefix_ci [] s = Some s"
| "strip_prefix_ci (p # ps) [] = None"
| "strip_prefix_ci (p # ps) (c # cs) =
     (if ascii_lower c = ascii_lower p then strip_prefix_ci ps cs else None)"

definition ends_with :: "string \<Rightarrow> string \<Rightarrow> bool" where
  "ends_with suffix s = starts_with (rev suffix) (rev s)"

text \<open>
  \<^verbatim>\<open>int(text)\<close> on a non-empty run of decimal digits. CPython (3.11, and the
  security releases of 3.7 to 3.10) refuses a text of more than 4300 digits, leading
  zeros counted, with \<^verbatim>\<open>ValueError\<close>: \<open>None\<close> here.
\<close>

definition int_max_str_digits :: nat where
  "int_max_str_digits = 4300"

definition int_of_digits :: "string \<Rightarrow> int option" where
  "int_of_digits ds =
     (if int_max_str_digits < length ds then None else Some (int (nat_of_digits ds)))"

text \<open>
  One attempt of \<^verbatim>\<open>prop:\s*(\d+)px\<close> (the patterns \<^verbatim>\<open>width:\s*(\d+)px\<close> and
  \<^verbatim>\<open>height:\s*(\d+)px\<close> of \<^verbatim>\<open>main\<close>): the group is the whole run of digits, which
  must be non-empty and followed by \<^verbatim>\<open>px\<close>.
\<close>

definition match_px :: "string \<Rightarrow> string \<Rightarrow> string option" where
  "match_px prop s =
     (case strip_prefix (prop @ '':'') s of
        None \<Rightarrow> None
      | Some r \<Rightarrow>
          (let r1 = dropWhile is_space r;
               ds = takeWhile is_digit r1;
               r2 = dropWhile is_digit r1
           in if ds \<noteq> [] \<and> starts_with ''px'' r2 then Some ds else None))"

text \<open>
  \<^verbatim>\<open>_extract_css_property\<close>. One attempt of \<^verbatim>\<open>prop\s*:\s*([^;]+)\<close> under
  \<^verbatim>\<open>re.IGNORECASE\<close>: the group is the run up to the next \<^verbatim>\<open>;\<close> after the white space
  that follows the colon. When that run is empty the white-space loop gives back its
  last character, which the group then takes; without white space the attempt fails.
\<close>

definition match_prop :: "string \<Rightarrow> string \<Rightarrow> string option" where
  "match_prop prop s =
     (case strip_prefix_ci prop s of
        None \<Rightarrow> None
      | Some r \<Rightarrow>
          (case dropWhile is_space r of
             [] \<Rightarrow> None
           | c # rest \<Rightarrow>
               if c \<noteq> CHR '':'' then None
               else (let ws = takeWhile is_space rest;
                         v = takeWhile (\<lambda>x. x \<noteq> CHR '';'') (dropWhile is_space rest)
                     in if v \<noteq> [] then Some v
                        else if ws \<noteq> [] then Some [last ws]
                        else None)))"

definition extract_css_property :: "string option \<Rightarrow> string \<Rightarrow> string option" where
  "extract_css_property block prop =
     (case block of
        None \<Rightarrow> None
      | Some b \<Rightarrow> if b = [] then None
                  else map_option strip (search_from (match_prop prop) b))"

section \<open>Rasterizer: the target size\<close>

text \<open>
  \<^verbatim>\<open>main\<close>, lines 157-193. The class loop skips the classes without a block and
  stops (\<^verbatim>\<open>break\<close>) at the first class that has one.
\<close>

fun first_class_block :: "string \<Rightarrow> string list \<Rightarrow> string option" where
  "first_class_block css [] = None"
| "first_class_block css (class_name # rest) =
     (case css_block_for_class (Some css) class_name of
        None \<Rightarrow> first_class_block css rest
      | Some body \<Rightarrow> if body = [] then first_class_block css rest else Some body)"

text \<open>
  \<^verbatim>\<open>if v and v.strip().endswith("px"): m = re.match(r"(\d+)", v.strip()); if m: ...\<close>:
  the digits that \<^verbatim>\<open>m.group(1)\<close> holds when both tests pass.
\<close>

definition class_px_digits :: "string option \<Rightarrow> string option" where
  "class_px_digits v =
     (case v of
        None \<Rightarrow> None
      | Some t \<Rightarrow>
          if t \<noteq> [] \<and> ends_with ''px'' (strip t) \<and> takeWhile is_digit (strip t) \<noteq> []
          then Some (takeWhile is_digit (strip t))
          else None)"

text \<open>
  Lines 161-172: the inline value, each \<^verbatim>\<open>int(...)\<close> in a \<^verbatim>\<open>try\<close> of its own whose
  \<^verbatim>\<open>except\<close> leaves the target as it was.
\<close>

definition inline_px :: "string \<Rightarrow> string \<Rightarrow> int option" where
  "inline_px prop div_style =
     (case search_from (match_px prop) div_style of
        None \<Rightarrow> None
      | Some ds \<Rightarrow> int_of_digits ds)"

text \<open>
  Lines 182-192: the two assignments from the class rule stand in one \<^verbatim>\<open>try\<close>. A
  \<^verbatim>\<open>ValueError\<close> of the width conversion leaves both targets as they were; one of the
  height conversion comes after the width has been assigned.
\<close>

definition class_size :: "string option \<Rightarrow> string option \<Rightarrow> int \<times> int \<Rightarrow> int \<times> int" where
  "class_size w_val h_val target =
     (case target of (target_w, target_h) \<Rightarrow>
        (case (case class_px_digits w_val of
                 None \<Rightarrow> Some target_w
               | Some ds \<Rightarrow> int_of_digits ds) of
           None \<Rightarrow> (target_w, target_h)
         | Some w \<Rightarrow>
             (case class_px_digits h_val of
                None \<Rightarrow> (w, target_h)
              | Some ds \<Rightarrow>
                  (case int_of_digits ds of
                     None \<Rightarrow> (w, target_h)
                   | Some h \<Rightarrow> (w, h)))))"

text \<open>
  The assignments in the order of the source: the default 400, then the inline value,
  then the value of the class rule; each later assignment replaces the earlier one.
\<close>

definition resolve_target_size :: "string \<Rightarrow> string option \<Rightarrow> string list \<Rightarrow> int \<times> int" where
  "resolve_target_size div_style css div_classes =
     (let target_w = 400;
          target_h = 400;
          target_w = (case inline_px ''width'' div_style of Some w \<Rightarrow> w | None \<Rightarrow> target_w);
          target_h = (case inline_px ''height'' div_style of Some h \<Rightarrow> h | None \<Rightarrow> target_h)
      in case css of
           None \<Rightarrow> (target_w, target_h)
         | Some text \<Rightarrow>
             if text = [] then (target_w, target_h)
             else (case first_class_block text div_classes of
                     None \<Rightarrow> (target_w, target_h)
                   | Some body \<Rightarrow>
                       (let w_val = extract_css_property (Some body) ''width'';
                            h_val = extract_css_property (Some body) ''height''
                        in class_size w_val h_val (target_w, target_h))))"

section \<open>Rasterizer: the image source\<close>

text \<open>
  The fragment as \<^verbatim>\<open>main\<close> reads it: the class list of the container, its
  \<^verbatim>\<open>style\<close> attribute (empty when absent), and the first nested \<^verbatim>\<open>img\<close> element, if
  any, with its \<^verbatim>\<open>src\<close> attribute (\<open>None\<close> when the attribute is absent) and its
  \<^verbatim>\<open>style\<close> attribute.
\<close>

record img_tag =
  img_src :: "string option"
  img_style :: string

record div_tag =
  div_classes :: "string list"
  div_style :: string
  div_img :: "img_tag option"

definition is_quote :: "char \<Rightarrow> bool" where
  "is_quote c = (c = CHR 0x27 \<or> c = CHR 0x22)"

text \<open>
  The tail \<^verbatim>\<open>\)\s*(?=;|$)\<close> of the inline pattern: a closing parenthesis, then white
  space, then a semicolon or the end of the text.
\<close>

definition inline_tail_ok :: "string \<Rightarrow> bool" where
  "inline_tail_ok s =
     (case s of
        [] \<Rightarrow> False
      | c # r \<Rightarrow> c = CHR '')'' \<and>
                 (case dropWhile is_space r of [] \<Rightarrow> True | d # _ \<Rightarrow> d = CHR '';''))"

text \<open>The tail \<^verbatim>\<open>\)\<close> of the pattern applied to a class rule's value.\<close>

definition paren_tail_ok :: "string \<Rightarrow> bool" where
  "paren_tail_ok s = (case s of [] \<Rightarrow> False | c # r \<Rightarrow> c = CHR '')'')"

text \<open>
  \<^verbatim>\<open>(?:['\"]?)\<close> before the tail: the quote is taken first when there is one, and
  left when the tail does not follow it.
\<close>

definition close_ok :: "(string \<Rightarrow> bool) \<Rightarrow> string \<Rightarrow> bool" where
  "close_ok tail s =
     ((case s of [] \<Rightarrow> False | c # r \<Rightarrow> is_quote c \<and> tail r) \<or> tail s)"

text \<open>
  The lazy group \<^verbatim>\<open>(.+?)\<close>: the shortest non-empty run of characters other than a
  newline after which the rest of the pattern matches; \<open>acc\<close> is the run taken so far.
\<close>

fun lazy_group :: "(string \<Rightarrow> bool) \<Rightarrow> string \<Rightarrow> string \<Rightarrow> string option" where
  "lazy_group tail acc [] = None"
| "lazy_group tail acc (c # cs) =
     (if c = CHR 0x0A then None
      else if close_ok tail cs then Some (acc @ [c])
      else lazy_group tail (acc @ [c]) cs)"

text \<open>
  \<^verbatim>\<open>(?:['\"]?)(.+?)...\<close> after \<^verbatim>\<open>url\(\<close>: an opening quote is taken first when there
  is one, and left to the group when the pattern fails with it taken.
\<close>

definition url_group :: "(string \<Rightarrow> bool) \<Rightarrow> string \<Rightarrow> string option" where
  "url_group tail s =
     (case s of
        [] \<Rightarrow> None
      | c # r \<Rightarrow>
          if is_quote c
          then (case lazy_group tail [] r of Some g \<Rightarrow> Some g | None \<Rightarrow> lazy_group tail [] s)
          else lazy_group tail [] s)"

text \<open>
  One attempt of
  \<^verbatim>\<open>background-image:\s*url\((?:['\"]?)(.+?)(?:['\"]?)\)\s*(?=;|$)\<close> under
  \<^verbatim>\<open>re.IGNORECASE\<close>, and one attempt of \<^verbatim>\<open>url\((?:['\"]?)(.+?)(?:['\"]?)\)\<close>.
\<close>

definition match_inline_bg :: "string \<Rightarrow> string option" where
  "match_inline_bg s =
     (case strip_prefix_ci ''background-image:'' s of
        None \<Rightarrow> None
      | Some r \<Rightarrow>
          (case strip_prefix_ci ''url('' (dropWhile is_space r) of
             None \<Rightarrow> None
           | Some u \<Rightarrow> url_group inline_tail_ok u))"

definition match_url :: "string \<Rightarrow> string option" where
  "match_url s =
     (case strip_prefix ''url('' s of
        None \<Rightarrow> None
      | Some u \<Rightarrow> url_group paren_tail_ok u)"

text \<open>
  The loop over the classes, lines 115-125: a class without a block, without a
  \<^verbatim>\<open>background-image\<close> value, or whose value has no \<^verbatim>\<open>url(...)\<close> is passed over; the
  first class with one gives the source. Without any, the source stays empty.
\<close>

fun class_bg_src :: "string \<Rightarrow> string list \<Rightarrow> string" where
  "class_bg_src css [] = []"
| "class_bg_src css (class_name # rest) =
     (case css_block_for_class (Some css) class_name of
        None \<Rightarrow> class_bg_src css rest
      | Some body \<Rightarrow>
          if body = [] then class_bg_src css rest
          else (case extract_css_property (Some body) ''background-image'' of
                  None \<Rightarrow> class_bg_src css rest
                | Some bg_val \<Rightarrow>
                    if bg_val = [] then class_bg_src css rest
                    else (case search_from match_url bg_val of
                            None \<Rightarrow> class_bg_src css rest
                          | Some g \<Rightarrow> g)))"

text \<open>Lines 99-125: the source string, empty when none is found.\<close>

definition background_src :: "div_tag \<Rightarrow> string option \<Rightarrow> string" where
  "background_src d css =
     (case search_from match_inline_bg (div_style d) of
        Some g \<Rightarrow> g
      | None \<Rightarrow>
          (case css of
             None \<Rightarrow> []
           | Some text \<Rightarrow> if text = [] then [] else class_bg_src text (div_classes d)))"

definition resolve_src :: "div_tag \<Rightarrow> string option \<Rightarrow> string" where
  "resolve_src d css =
     (case div_img d of
        None \<Rightarrow> background_src d css
      | Some i \<Rightarrow> (case img_src i of None \<Rightarrow> background_src d css | Some src \<Rightarrow> src))"

section \<open>Rasterizer: loading the source and returning\<close>

text \<open>
  The exceptions that leave \<^verbatim>\<open>main\<close>: the \<^verbatim>\<open>OSError\<close> of the file-system call at line
  139, and whatever the rendering steps after the load raise.
\<close>

datatype error = OSError | Render_error

text \<open>
  What \<^verbatim>\<open>main\<close> asks of its surroundings.

  \<^item> \<open>valid_http_url\<close>: whether \<^verbatim>\<open>HttpUrl(src)\<close> accepts the string (otherwise it raises
    \<^verbatim>\<open>ValidationError\<close>, which line 136 catches).
  \<^item> \<open>is_file\<close>: the call \<^verbatim>\<open>Path(src).is_file()\<close> of line 139. \<^verbatim>\<open>pathlib\<close> answers
    \<^verbatim>\<open>False\<close> for a path that does not exist, and lets every \<^verbatim>\<open>OSError\<close> other than
    \<^verbatim>\<open>ENOENT\<close>, \<^verbatim>\<open>ENOTDIR\<close>, \<^verbatim>\<open>EBADF\<close> and \<^verbatim>\<open>ELOOP\<close> through: \<^verbatim>\<open>ENAMETOOLONG\<close> for a name of
    more than 255 bytes, \<^verbatim>\<open>EACCES\<close> for a directory that may not be searched. \<open>Inl\<close> is the
    exception, \<open>Inr\<close> the answer.
  \<^item> \<open>path_str\<close>: the text \<^verbatim>\<open>str(Path(src))\<close>.
  \<^item> \<open>download_image\<close>, \<open>open_image\<close>: the result of \<^verbatim>\<open>_download_image\<close> and of
    \<^verbatim>\<open>Image.open(...).convert("RGB")\<close>; \<open>None\<close> when the call raises. An image is known
    by its size.
  \<^item> \<open>render_ok\<close>: whether lines 157-383, which stand in no \<^verbatim>\<open>try\<close> except where they
    parse numbers and resize, run to the end for the loaded image, the fragment, the
    stylesheet, the directory of the copy and the two indices. They do not, for
    instance, when \<^verbatim>\<open>save\<close> is given an image whose width or height is 0.
  \<^item> \<open>temp_dir\<close>, \<open>process_id\<close>: \<^verbatim>\<open>tempfile.gettempdir()\<close> and \<^verbatim>\<open>os.getpid()\<close>.
\<close>

record image =
  img_width :: int
  img_height :: int

record env =
  valid_http_url :: "string \<Rightarrow> bool"
  is_file :: "string \<Rightarrow> error + bool"
  path_str :: "string \<Rightarrow> string"
  download_image :: "string \<Rightarrow> image option"
  open_image :: "string \<Rightarrow> image option"
  render_ok :: "image \<Rightarrow> div_tag \<Rightarrow> string option \<Rightarrow> string option \<Rightarrow> int option
    \<Rightarrow> int option \<Rightarrow> bool"
  temp_dir :: string
  process_id :: int

text \<open>The warnings and errors that \<^verbatim>\<open>main\<close> logs before it gives up.\<close>

datatype log_event = Warn_no_source | Warn_invalid_src string | Error_load_failed string

text \<open>
  Lines 131-142. \<open>Rejected\<close> is the warning and the early \<^verbatim>\<open>return None\<close>;
  \<open>Check_raised\<close> is an exception of \<^verbatim>\<open>p.is_file()\<close>, which stands in the \<^verbatim>\<open>except\<close>
  clause and in no \<^verbatim>\<open>try\<close> of its own; \<open>Accepted\<close> carries the flag \<^verbatim>\<open>is_remote\<close> and the
  source to load.
\<close>

datatype src_check = Rejected | Check_raised error | Accepted bool string

definition validate_src :: "env \<Rightarrow> string \<Rightarrow> src_check" where
  "validate_src e src_str =
     (if valid_http_url e src_str then Accepted True src_str
      else (case is_file e src_str of
              Inl err \<Rightarrow> Check_raised err
            | Inr False \<Rightarrow> Rejected
            | Inr True \<Rightarrow> Accepted False (path_str e src_str)))"

text \<open>Lines 145-155, inside \<^verbatim>\<open>try ... except Exception\<close>.\<close>

definition load_image :: "env \<Rightarrow> bool \<Rightarrow> string \<Rightarrow> image option" where
  "load_image e is_remote src = (if is_remote then download_image e src else open_image e src)"

text \<open>
  \<^verbatim>\<open>main\<close>, as far as its caller sees it: the events logged, and the value returned
  (\<open>Inr\<close>) or the exception raised (\<open>Inl\<close>). The parameters are those of the source, in
  its order.
\<close>

definition main :: "env \<Rightarrow> div_tag \<Rightarrow> string option \<Rightarrow> string option \<Rightarrow> int option
    \<Rightarrow> int option \<Rightarrow> log_event list \<times> (error + string option)" where
  "main e d css save_copy_to slide_index div_index =
     (let src_str = resolve_src d css
      in if src_str = [] then ([Warn_no_source], Inr None)
         else (case validate_src e src_str of
                 Check_raised err \<Rightarrow> ([], Inl err)
               | Rejected \<Rightarrow> ([Warn_invalid_src src_str], Inr None)
               | Accepted is_remote src \<Rightarrow>
                   (case load_image e is_remote src of
                      None \<Rightarrow> ([Error_load_failed src], Inr None)
                    | Some img \<Rightarrow>
                        if render_ok e img d css save_copy_to slide_index div_index
                        then ([], Inr (Some (png_path (temp_dir e) (process_id e)
                                               slide_index div_index)))
                        else ([], Inl Render_error))))"

text \<open>
  The reading of "the image source cannot be resolved": no \<^verbatim>\<open>src\<close> on a nested
  image, no inline \<^verbatim>\<open>background-image\<close> URL, and no URL from a class rule.
\<close>

definition no_source :: "div_tag \<Rightarrow> string option \<Rightarrow> bool" where
  "no_source d css \<longleftrightarrow>
     (case div_img d of None \<Rightarrow> True | Some i \<Rightarrow> img_src i = None)
     \<and> search_from match_inline_bg (div_style d) = None
     \<and> (case css of None \<Rightarrow> True
         | Some text \<Rightarrow> text = [] \<or> class_bg_src text (div_classes d) = [])"

text \<open>
  An environment and fragments for concrete runs: one URL whose download fails, one
  file that does not open, one file that opens; a file name of more than 255
  characters makes the file-system call fail with \<^verbatim>\<open>ENAMETOOLONG\<close>, as on Linux; the
  rendering fails when the target has no pixel.
\<close>

definition name_max :: nat where
  "name_max = 255"

definition witness_env :: env where
  "witness_env = \<lparr>valid_http_url = (\<lambda>s. s = ''https://example.test/img.png''),
     is_file = (\<lambda>s. if name_max < length s then Inl OSError
                      else Inr (s = ''broken.png'' \<or> s = ''good.png'')),
     path_str = (\<lambda>s. s),
     download_image = (\<lambda>s. None),
     open_image = (\<lambda>s. if s = ''good.png'' then Some \<lparr>img_width = 60, img_height = 60\<rparr> else None),
     render_ok = (\<lambda>img d css save_copy_to slide_index div_index.
        case resolve_target_size (div_style d) css (div_classes d) of
          (target_w, target_h) \<Rightarrow> 0 < target_w \<and> 0 < target_h),
     temp_dir = ''/tmp'', process_id = 4242\<rparr>"

definition witness_div :: "string option \<Rightarrow> div_tag" where
  "witness_div src = \<lparr>div_classes = [''portrait-wrap''], div_style = ''width:100px'',
     div_img = (case src of None \<Rightarrow> None
                | Some s \<Rightarrow> Some \<lparr>img_src = Some s, img_style = []\<rparr>)\<rparr>"

text \<open>A file name of 300 characters, as the \<^verbatim>\<open>src\<close> of a nested image.\<close>

definition long_name :: string where
  "long_name = replicate 300 (CHR ''a'')"

section \<open>Region Geometry Calculator\<close>

text \<open>
  Modelled from the spec: the data of \<^verbatim>\<open>_calculate_background_region\<close>, which
  lives in \<^verbatim>\<open>postprocessing.py\<close>; that file is not among the sources, only
  \<^verbatim>\<open>src/tests/test_marp_postprocess.py\<close> calls the function. A region is
  \<open>(left, top, width, height)\<close> in pixels.
\<close>

datatype direction = Horizontal | Vertical

datatype split_dir = Split_left | Split_right | Split_top | Split_bottom

type_synonym region = "int \<times> int \<times> int \<times> int"

text \<open>
  Modelled from the spec: the slicing of \<^verbatim>\<open>_calculate_background_region\<close>, whose code
  is missing. A length is cut into \<open>count\<close> contiguous slices of \<open>len div count\<close>
  pixels, the slice \<open>index\<close> taken by position, and the last slice absorbs the
  remainder. The result is the offset and the size of the slice.
\<close>

definition slice_1d :: "int \<Rightarrow> int \<Rightarrow> int \<Rightarrow> int \<times> int" where
  "slice_1d len index count =
     (let step = len div count
      in (index * step, if index = count - 1 then len - index * step else step))"

text \<open>
  Modelled from the spec: the slice of a rectangle along \<open>direction\<close>; horizontal
  gives vertical stripes, vertical gives horizontal stripes.
\<close>

definition slice_region :: "region \<Rightarrow> int \<Rightarrow> int \<Rightarrow> direction \<Rightarrow> region" where
  "slice_region r index count dir =
     (case r of (rx, ry, rw, rh) \<Rightarrow>
        (case dir of
           Horizontal \<Rightarrow>
             (case slice_1d rw index count of (off, ext) \<Rightarrow> (rx + off, ry, ext, rh))
         | Vertical \<Rightarrow>
             (case slice_1d rh index count of (off, ext) \<Rightarrow> (rx, ry + off, rw, ext))))"

text \<open>
  Modelled from the spec: the part of the canvas that a split background occupies,
  \<open>split_pct\<close> percent of the canvas on the side \<open>split_dir\<close>, in whole pixels.
\<close>

definition split_part :: "int \<Rightarrow> int \<Rightarrow> split_dir \<Rightarrow> int \<Rightarrow> region" where
  "split_part canvas_w canvas_h sd split_pct =
     (case sd of
        Split_left \<Rightarrow> (0, 0, canvas_w * split_pct div 100, canvas_h)
      | Split_right \<Rightarrow>
          (canvas_w - canvas_w * split_pct div 100, 0, canvas_w * split_pct div 100, canvas_h)
      | Split_top \<Rightarrow> (0, 0, canvas_w, canvas_h * split_pct div 100)
      | Split_bottom \<Rightarrow>
          (0, canvas_h - canvas_h * split_pct div 100, canvas_w, canvas_h * split_pct div 100))"

text \<open>
  Modelled from the spec: the area that \<^verbatim>\<open>_calculate_background_region\<close>, whose code
  is missing, slices. Without a split the canvas is sliced. With a split the repository's test fixes the
  values (index 0 and 1 of 2 on a 1280 by 720 canvas, split left at 50 percent, are
  \<open>(0, 0, 320, 720)\<close> and \<open>(320, 0, 320, 720)\<close>): the split part is sliced. The spec
  does not say what a split without side or percentage gives; the model slices the
  canvas then.
\<close>

definition area_to_slice :: "int \<Rightarrow> int \<Rightarrow> bool \<Rightarrow> split_dir option \<Rightarrow> int option \<Rightarrow> region" where
  "area_to_slice canvas_w canvas_h is_split sd split_pct =
     (case (is_split, sd, split_pct) of
        (True, Some s, Some p) \<Rightarrow> split_part canvas_w canvas_h s p
      | _ \<Rightarrow> (0, 0, canvas_w, canvas_h))"

text \<open>
  Modelled from the spec: \<^verbatim>\<open>_calculate_background_region\<close>, whose code is missing:
  the slice \<open>index\<close> of \<open>count\<close> of the area chosen above, along \<open>direction\<close>.
\<close>

definition calculate_background_region ::
    "int \<Rightarrow> int \<Rightarrow> int \<Rightarrow> int \<Rightarrow> direction \<Rightarrow> bool \<Rightarrow> split_dir option \<Rightarrow> int option \<Rightarrow> region" where
  "calculate_background_region canvas_w canvas_h index count dir is_split sd split_pct =
     slice_region (area_to_slice canvas_w canvas_h is_split sd split_pct) index count dir"

text \<open>The pixel \<open>(x, y)\<close> lies in a region.\<close>

definition in_region :: "region \<Rightarrow> int \<times> int \<Rightarrow> bool" where
  "in_region r p =
     (case r of (rx, ry, rw, rh) \<Rightarrow>
        (case p of (x, y) \<Rightarrow> rx \<le> x \<and> x < rx + rw \<and> ry \<le> y \<and> y < ry + rh))"

definition region_width :: "region \<Rightarrow> int" where
  "region_width r = (case r of (rx, ry, rw, rh) \<Rightarrow> rw)"

definition region_height :: "region \<Rightarrow> int" where
  "region_height r = (case r of (rx, ry, rw, rh) \<Rightarrow> rh)"

text \<open>
  The regions \<open>f 0, \<dots>, f (count - 1)\<close> tile the rectangle \<open>area\<close>: a pixel lies in the
  area exactly when it lies in one of the regions, and it lies in at most one.
\<close>

definition tiles :: "region \<Rightarrow> int \<Rightarrow> (int \<Rightarrow> region) \<Rightarrow> bool" where
  "tiles area count f \<longleftrightarrow>
     (\<forall>p. in_region area p \<longleftrightarrow> (\<exists>i. 0 \<le> i \<and> i < count \<and> in_region (f i) p))
     \<and> (\<forall>p i j. 0 \<le> i \<and> i < count \<and> 0 \<le> j \<and> j < count
           \<and> in_region (f i) p \<and> in_region (f j) p \<longrightarrow> i = j)"

section \<open>Redundant background rectangles\<close>

text \<open>
  Modelled from the spec: the data of \<^verbatim>\<open>remove_redundant_marp_white_rectangles\<close>,
  which lives in \<^verbatim>\<open>postprocessing.py\<close>; that file is not among the sources, only
  \<^verbatim>\<open>src/main.py\<close> and the tests call the function. The shapes of a slide are a list
  in z-order, back-most first, which is the order in which they were added. A shape is
  known by its size, its fill and its name.
\<close>

datatype fill = No_fill | Solid_fill "nat \<times> nat \<times> nat" | Other_fill

record shape =
  shape_name :: string
  shape_width :: int
  shape_height :: int
  shape_fill :: fill

record presentation =
  slide_width :: int
  slide_height :: int
  slides :: "shape list list"

text \<open>
  Modelled from the spec: the candidates of the pruning pass, whose code is missing. A
  candidate covers the full slide width and height and has a solid white fill.
\<close>

definition is_candidate :: "int \<Rightarrow> int \<Rightarrow> shape \<Rightarrow> bool" where
  "is_candidate sw sh s \<longleftrightarrow>
     shape_width s = sw \<and> shape_height s = sh \<and> shape_fill s = Solid_fill (255, 255, 255)"

text \<open>
  Modelled from the spec: the first accepted case of the pruning pass, whose code is
  missing: the candidates are the only shapes of the slide.
\<close>

definition only_candidates :: "int \<Rightarrow> int \<Rightarrow> shape list \<Rightarrow> bool" where
  "only_candidates sw sh shapes = list_all (is_candidate sw sh) shapes"

text \<open>
  Modelled from the spec: the second accepted case of the pruning pass, whose code is
  missing: every other shape comes after the candidates (no candidate is left once
  the leading candidates are dropped).
\<close>

definition candidates_backmost :: "int \<Rightarrow> int \<Rightarrow> shape list \<Rightarrow> bool" where
  "candidates_backmost sw sh shapes =
     (filter (is_candidate sw sh) (dropWhile (is_candidate sw sh) shapes) = [])"

text \<open>
  Modelled from the spec: the pass on one slide, whose code is missing. It fires only
  when the slide has exactly three candidates and they are the only shapes or the
  back-most ones; then the candidates are removed. The result is the remaining shapes
  and the number removed.
\<close>

definition prune_slide :: "int \<Rightarrow> int \<Rightarrow> shape list \<Rightarrow> shape list \<times> nat" where
  "prune_slide sw sh shapes =
     (let candidates = filter (is_candidate sw sh) shapes
      in if length candidates = 3
            \<and> (only_candidates sw sh shapes \<or> candidates_backmost sw sh shapes)
         then (filter (\<lambda>s. \<not> is_candidate sw sh s) shapes, length candidates)
         else (shapes, 0))"

text \<open>
  Modelled from the spec: \<^verbatim>\<open>remove_redundant_marp_white_rectangles\<close>, whose code is
  missing: the pass on every slide; the count returned is the total.
\<close>

definition remove_redundant_marp_white_rectangles :: "presentation \<Rightarrow> presentation \<times> nat" where
  "remove_redundant_marp_white_rectangles prs =
     (let results = map (prune_slide (slide_width prs) (slide_height prs)) (slides prs)
      in (prs\<lparr>slides := map fst results\<rparr>, sum_list (map snd results)))"

text \<open>
  The condition of the claim in terms of positions: exactly three candidates, and
  every candidate stands before every other shape.
\<close>

definition three_backmost :: "int \<Rightarrow> int \<Rightarrow> shape list \<Rightarrow> bool" where
  "three_backmost sw sh shapes \<longleftrightarrow>
     length (filter (is_candidate sw sh) shapes) = 3
     \<and> (\<forall>i j. i < length shapes \<and> j < length shapes
            \<and> is_candidate sw sh (shapes ! i) \<and> \<not> is_candidate sw sh (shapes ! j)
          \<longrightarrow> i < j)"

text \<open>Shapes for concrete runs: a full-slide white rectangle and a text box.\<close>

definition white_rect :: shape where
  "white_rect = \<lparr>shape_name = ''Rectangle'', shape_width = 9144000, shape_height = 6858000,
     shape_fill = Solid_fill (255, 255, 255)\<rparr>"

definition text_box :: shape where
  "text_box = \<lparr>shape_name = ''TextBox'', shape_width = 720000, shape_height = 360000,
     shape_fill = No_fill\<rparr>"

section \<open>Orchestrator\<close>

text \<open>
  \<^verbatim>\<open>src/main.py\<close>, \<^verbatim>\<open>process_pptx_html\<close>. The presentation object is mutated in place
  by every step; a step that raises leaves it as it was at that moment. The outcome of
  a step is the presentation after it, marked with whether the step returned or
  raised.
\<close>

datatype 'p step_result = Done 'p | Failed 'p

text \<open>
  The functions that \<^verbatim>\<open>process_pptx_html\<close> calls, in the order of the source; they
  live in \<^verbatim>\<open>postprocessing.py\<close> and the \<^verbatim>\<open>pptx\<close> library and are parameters here.
  \<open>'s\<close> is the slide data parsed from the markup, \<open>'p\<close> the presentation;
  \<open>None\<close> stands for an exception of the parser or of the opening of the package.
\<close>

record ('s, 'p) collaborators =
  parse_marp_html :: "string \<Rightarrow> 's option"
  open_presentation :: "string \<Rightarrow> 'p option"
  process_native_marp_images :: "'p \<Rightarrow> 's \<Rightarrow> 'p step_result"
  widen_text_shapes :: "'p \<Rightarrow> 'p step_result"
  process_styled_divs :: "'p \<Rightarrow> 's \<Rightarrow> string \<Rightarrow> bool \<Rightarrow> 'p step_result"
  normalize_font_names :: "'p \<Rightarrow> 'p step_result"
  remove_white_rectangles :: "'p \<Rightarrow> 'p step_result"

text \<open>
  What the caller of \<^verbatim>\<open>process_pptx_html\<close> observes: an exception, or the call
  \<^verbatim>\<open>prs.save(str(output_path))\<close> with the presentation as it is then.
\<close>

datatype 'p run = Raised | Save_called string 'p

text \<open>\<^verbatim>\<open>try: step(prs) except Exception: logger.debug(...)\<close>: the run goes on either way.\<close>

definition swallow :: "'p step_result \<Rightarrow> 'p" where
  "swallow r = (case r of Done p \<Rightarrow> p | Failed p \<Rightarrow> p)"

definition process_pptx_html ::
    "('s, 'p) collaborators \<Rightarrow> string \<Rightarrow> string \<Rightarrow> string \<Rightarrow> bool \<Rightarrow> bool \<Rightarrow> 'p run" where
  "process_pptx_html c html_path pptx_path output_path save_rendered_divs run_styled_divs =
     (case parse_marp_html c html_path of
        None \<Rightarrow> Raised
      | Some slides_data \<Rightarrow>
     (case open_presentation c pptx_path of
        None \<Rightarrow> Raised
      | Some prs \<Rightarrow>
     (case process_native_marp_images c prs slides_data of
        Failed _ \<Rightarrow> Raised
      | Done prs \<Rightarrow>
     (case widen_text_shapes c prs of
        Failed _ \<Rightarrow> Raised
      | Done prs \<Rightarrow>
     (case (if run_styled_divs
            then process_styled_divs c prs slides_data html_path save_rendered_divs
            else Done prs) of
        Failed _ \<Rightarrow> Raised
      | Done prs \<Rightarrow>
          (let prs = swallow (normalize_font_names c prs);
               prs = swallow (remove_white_rectangles c prs)
           in Save_called output_path prs))))))"

text \<open>
  Modelled from the spec: the error propagation inside the repair steps of
  \<^verbatim>\<open>postprocessing.py\<close>, whose code is missing. A step works through units (slides,
  shapes, fragments); the repair of a unit may fail (\<open>None\<close>), the unit is then left
  unmodified and the failure does not propagate past the unit.
\<close>

definition contained :: "('p \<Rightarrow> 'p option) \<Rightarrow> 'p \<Rightarrow> 'p" where
  "contained repair p = (case repair p of None \<Rightarrow> p | Some p' \<Rightarrow> p')"

text \<open>
  Modelled from the spec: a repair step of \<^verbatim>\<open>postprocessing.py\<close>, whose code is
  missing: the repairs of its units one after the other, each contained; the step
  returns.
\<close>

definition unit_step :: "('p \<Rightarrow> 'p option) list \<Rightarrow> 'p \<Rightarrow> 'p step_result" where
  "unit_step repairs p = Done (fold contained repairs p)"

text \<open>
  Modelled from the spec: collaborators whose three unguarded steps (native image
  layout, text-box widening, styled-div patching) work through units in that way. The
  units of a step may depend on the arguments of the step. The parser, the opening of
  the package, the font normalization and the rectangle pruning are arbitrary.
\<close>

definition unit_collaborators ::
    "(string \<Rightarrow> 's option) \<Rightarrow> (string \<Rightarrow> 'p option)
     \<Rightarrow> ('s \<Rightarrow> ('p \<Rightarrow> 'p option) list)
     \<Rightarrow> ('p \<Rightarrow> 'p option) list
     \<Rightarrow> ('s \<Rightarrow> string \<Rightarrow> bool \<Rightarrow> ('p \<Rightarrow> 'p option) list)
     \<Rightarrow> ('p \<Rightarrow> 'p step_result) \<Rightarrow> ('p \<Rightarrow> 'p step_result)
     \<Rightarrow> ('s, 'p) collaborators" where
  "unit_collaborators parse opn native_units widen_units styled_units fonts prune =
     \<lparr>parse_marp_html = parse,
      open_presentation = opn,
      process_native_marp_images = (\<lambda>prs slides_data. unit_step (native_units slides_data) prs),
      widen_text_shapes = unit_step widen_units,
      process_styled_divs = (\<lambda>prs slides_data html_path save_rendered_divs.
         unit_step (styled_units slides_data html_path save_rendered_divs) prs),
      normalize_font_names = fonts,
      remove_white_rectangles = prune\<rparr>"

section \<open>Binary floating point\<close>

text \<open>
  A Python \<^verbatim>\<open>float\<close> is an IEEE 754 binary64 number. A finite float is modelled by the
  real number it stands for; the arithmetic of the source rounds the exact result
  to the nearest binary64 number, ties to even.
\<close>

fun bit_length :: "nat \<Rightarrow> nat" where
  "bit_length n = (if n = 0 then 0 else Suc (bit_length (n div 2)))"

declare bit_length.simps [simp del]

definition pow2 :: "int \<Rightarrow> real" where
  "pow2 k = (if 0 \<le> k then 2 ^ nat k else 1 / 2 ^ nat (- k))"

text \<open>
  \<open>\<lfloor>log\<^sub>2 a\<rfloor>\<close> for a positive number: one less than the bit length of \<open>\<lfloor>a\<rfloor>\<close> from 1
  on; below 1, minus the least \<open>k\<close> with \<open>1 / a \<le> 2 ^ k\<close>.
\<close>

definition floor_log2 :: "real \<Rightarrow> int" where
  "floor_log2 a =
     (if 1 \<le> a then int (bit_length (nat \<lfloor>a\<rfloor>)) - 1
      else - int (bit_length (nat (\<lceil>1 / a\<rceil> - 1))))"

definition round_half_even :: "real \<Rightarrow> int" where
  "round_half_even x =
     (let f = \<lfloor>x\<rfloor>; r = x - of_int f
      in if r < 1 / 2 then f
         else if 1 / 2 < r then f + 1
         else if even f then f else f + 1)"

text \<open>
  The nearest binary64 number: 53 significant bits, exponents down to the subnormal
  range; \<open>None\<close> when the rounded magnitude is beyond the largest finite float.
\<close>

definition round_double :: "real \<Rightarrow> real option" where
  "round_double q =
     (if q = 0 then Some 0
      else (let a = \<bar>q\<bar>;
                e = max (floor_log2 a - 52) (- 1074);
                v = of_int (round_half_even (a / pow2 e)) * pow2 e
            in if pow2 1024 \<le> v then None
               else Some (if q < 0 then - v else v)))"

text \<open>\<^verbatim>\<open>int(x)\<close> on a finite float: truncation towards zero.\<close>

definition trunc :: "real \<Rightarrow> int" where
  "trunc x = (if 0 \<le> x then \<lfloor>x\<rfloor> else - \<lfloor>- x\<rfloor>)"

text \<open>
  \<^verbatim>\<open>a / b\<close> on integers is the correctly rounded quotient; \<open>None\<close> stands for
  \<^verbatim>\<open>ZeroDivisionError\<close> or \<^verbatim>\<open>OverflowError\<close>.
\<close>

definition int_truediv :: "int \<Rightarrow> int \<Rightarrow> real option" where
  "int_truediv a b = (if b = 0 then None else round_double (of_int a / of_int b))"

text \<open>
  \<^verbatim>\<open>n * x\<close> and \<^verbatim>\<open>x / n\<close> for an integer and a float: the integer is converted to a float
  first. \<open>None\<close> stands for a result that is not a finite float, which \<^verbatim>\<open>int(...)\<close>
  rejects.
\<close>

definition int_times_float :: "int \<Rightarrow> real \<Rightarrow> real option" where
  "int_times_float n x =
     (case round_double (of_int n) of None \<Rightarrow> None | Some nf \<Rightarrow> round_double (nf * x))"

definition float_div :: "real \<Rightarrow> real \<Rightarrow> real option" where
  "float_div x y = (if y = 0 then None else round_double (x / y))"

section \<open>Rasterizer: object-fit cover\<close>

text \<open>
  \<^verbatim>\<open>main\<close>, lines 289-310, the branch \<^verbatim>\<open>object_fit == "cover"\<close>. The resolved
  \<^verbatim>\<open>object-position\<close> is a pair of percentages, a pair of pixel offsets, or absent.
\<close>

datatype object_position = Pos_pct real real | Pos_px int int | Pos_default

text \<open>
  The offset along one axis for the scaled length \<open>s\<close> and the target length \<open>t\<close>:
  \<^verbatim>\<open>int((s - t) * (pct / 100.0))\<close>, the pixel value, or \<^verbatim>\<open>(s - t) // 2\<close>.
\<close>

definition cover_offset_pct :: "int \<Rightarrow> int \<Rightarrow> real \<Rightarrow> int option" where
  "cover_offset_pct s t pct =
     (case float_div pct 100 of
        None \<Rightarrow> None
      | Some f \<Rightarrow> map_option trunc (int_times_float (s - t) f))"

definition cover_offsets :: "int \<Rightarrow> int \<Rightarrow> int \<Rightarrow> int \<Rightarrow> object_position \<Rightarrow> (int \<times> int) option" where
  "cover_offsets sw sh target_w target_h pos =
     (case pos of
        Pos_pct x y \<Rightarrow>
          (case cover_offset_pct sw target_w x of
             None \<Rightarrow> None
           | Some ox \<Rightarrow> map_option (\<lambda>oy. (ox, oy)) (cover_offset_pct sh target_h y))
      | Pos_px x y \<Rightarrow> Some (x, y)
      | Pos_default \<Rightarrow> Some ((sw - target_w) div 2, (sh - target_h) div 2))"

text \<open>
  The size \<open>(sw, sh)\<close> of the resized image:
  \<^verbatim>\<open>scale = max(target_w / img.width, target_h / img.height)\<close>,
  \<^verbatim>\<open>sw = max(1, int(img.width * scale))\<close>, \<^verbatim>\<open>sh = max(1, int(img.height * scale))\<close>.
\<close>

definition cover_scale :: "int \<Rightarrow> int \<Rightarrow> int \<Rightarrow> int \<Rightarrow> real option" where
  "cover_scale target_w target_h w h =
     (case int_truediv target_w w of
        None \<Rightarrow> None
      | Some a \<Rightarrow> map_option (max a) (int_truediv target_h h))"

definition cover_size :: "int \<Rightarrow> int \<Rightarrow> int \<Rightarrow> int \<Rightarrow> (int \<times> int) option" where
  "cover_size target_w target_h w h =
     (case cover_scale target_w target_h w h of
        None \<Rightarrow> None
      | Some scale \<Rightarrow>
          (case int_times_float w scale of
             None \<Rightarrow> None
           | Some fw \<Rightarrow>
               map_option (\<lambda>fh. (max 1 (trunc fw), max 1 (trunc fh))) (int_times_float h scale)))"

text \<open>
  The box \<open>(left, top, right, bottom)\<close> given to \<^verbatim>\<open>img_resized.crop\<close>:
  \<^verbatim>\<open>left = max(0, min(sw - target_w, ox))\<close>, \<^verbatim>\<open>top = max(0, min(sh - target_h, oy))\<close>.
\<close>

definition crop_box :: "int \<Rightarrow> int \<Rightarrow> int \<Rightarrow> int \<Rightarrow> int \<times> int \<Rightarrow> int \<times> int \<times> int \<times> int" where
  "crop_box sw sh target_w target_h offsets =
     (case offsets of (ox, oy) \<Rightarrow>
        (let x0 = max 0 (min (sw - target_w) ox);
             y0 = max 0 (min (sh - target_h) oy)
         in (x0, y0, x0 + target_w, y0 + target_h)))"

text \<open>
  The branch as a whole: the size of the resized image and the crop box; \<open>None\<close> when
  an exception is raised on the way.
\<close>

definition cover_crop ::
    "int \<Rightarrow> int \<Rightarrow> image \<Rightarrow> object_position \<Rightarrow> ((int \<times> int) \<times> (int \<times> int \<times> int \<times> int)) option" where
  "cover_crop target_w target_h img pos =
     (case cover_size target_w target_h (img_width img) (img_height img) of
        None \<Rightarrow> None
      | Some (sw, sh) \<Rightarrow>
          map_option (\<lambda>offsets. ((sw, sh), crop_box sw sh target_w target_h offsets))
            (cover_offsets sw sh target_w target_h pos))"

text \<open>The crop box lies inside an image of the given size.\<close>

definition box_inside :: "int \<times> int \<Rightarrow> int \<times> int \<times> int \<times> int \<Rightarrow> bool" where
  "box_inside dims box =
     (case dims of (w, h) \<Rightarrow>
        (case box of (x0, y0, x1, y1) \<Rightarrow>
           0 \<le> x0 \<and> x1 \<le> w \<and> 0 \<le> y0 \<and> y1 \<le> h))"

section \<open>Rasterizer: border radius and alpha mask\<close>

text \<open>
  The value of \<^verbatim>\<open>float(text)\<close> may be infinite or not a number. The conversion of a
  text to a float is a parameter of the model (\<open>None\<close> stands for \<^verbatim>\<open>ValueError\<close>).
\<close>

datatype pyfloat = Finite real | Pos_inf | Neg_inf | NaN











section \<open>Rasterizer: the pixels of the mask\<close>


text \<open>
  \<^verbatim>\<open>draw.ellipse([0, 0, w, h], fill=255)\<close> is Pillow's; what follows is the drawing of
  a filled ellipse by \<^verbatim>\<open>ellipseNew\<close>, \<^verbatim>\<open>ellipse_next\<close> and \<^verbatim>\<open>quarter_next\<close> in its
  \<^verbatim>\<open>src/libImaging/Draw.c\<close>, for a mask that has at least one pixel. The box is
  inclusive: it spans the pixel columns \<open>0\<close> to \<open>w\<close> and the rows \<open>0\<close> to \<open>h\<close>, one
  more than the mask has of each. With \<open>a = w\<close> and \<open>b = h\<close>, the differences of the box
  corners, the drawing works in half pixels measured from the centre of the box: the
  pixel \<open>(x, y)\<close> has the coordinates \<open>(2 * x - a, 2 * y - b)\<close>.

  \<^verbatim>\<open>quarter_delta\<close>: how far the point \<open>(x, y)\<close> is from the ellipse,
  \<^verbatim>\<open>llabs(a2 * y * y + b2 * x * x - a2b2)\<close>. The fixed-width integers of the library
  are unbounded integers here, which is the same as long as no product overflows
  (sides of some ten thousand pixels).
\<close>

definition quarter_delta :: "int \<Rightarrow> int \<Rightarrow> int \<Rightarrow> int \<Rightarrow> int" where
  "quarter_delta a b x y = \<bar>a * a * y * y + b * b * x * x - a * a * (b * b)\<bar>"

text \<open>
  The body of \<^verbatim>\<open>quarter_next\<close> for a point that is not the last: of the point above,
  the point above and to the left, and the point to the left, the one nearest to the
  ellipse, a later candidate being taken only when it is strictly nearer; the two to
  the left are considered only while \<^verbatim>\<open>cx > 1\<close>.
\<close>

definition quarter_step :: "int \<Rightarrow> int \<Rightarrow> int \<times> int \<Rightarrow> int \<times> int" where
  "quarter_step a b c =
     (case c of (cx, cy) \<Rightarrow>
        (let nx = cx; ny = cy + 2; ndelta = quarter_delta a b nx ny
         in if nx > 1
            then (let newdelta = quarter_delta a b (cx - 2) (cy + 2);
                      (nx, ny, ndelta) = (if ndelta > newdelta
                                          then (cx - 2, cy + 2, newdelta)
                                          else (nx, ny, ndelta));
                      newdelta = quarter_delta a b (cx - 2) cy
                  in if ndelta > newdelta then (cx - 2, cy) else (nx, ny))
            else (nx, ny)))"

text \<open>
  The points that successive calls of \<^verbatim>\<open>quarter_next\<close> return, from the point \<open>c\<close> on:
  the walk along the quarter of the ellipse ends with the point \<open>(a mod 2, b)\<close>. The
  first test is not in the library, whose loop has no bound; it makes the recursion
  end for every argument, and it never holds on the walk from the first point
  \<open>(a, b mod 2)\<close> (lemma \<open>quarter_points_last\<close>).
\<close>

function quarter_points :: "int \<Rightarrow> int \<Rightarrow> int \<times> int \<Rightarrow> (int \<times> int) list" where
  "quarter_points a b c =
     (if fst c < 0 \<or> b < snd c then []
      else if c = (a mod 2, b) then [c]
      else c # quarter_points a b (quarter_step a b c))"
  by pat_completeness auto
termination
proof (relation "measure (\<lambda>(a, b, c). nat (fst c - snd c + b + 1))")
  show "wf (measure (\<lambda>(a, b, c). nat (fst c - snd c + b + 1)))" by simp
next
  fix a b :: int and c :: "int \<times> int"
  assume g: "\<not> (fst c < 0 \<or> b < snd c)"
  obtain cx cy where c: "c = (cx, cy)" by (cases c)
  have "fst (quarter_step a b c) - snd (quarter_step a b c) \<le> fst c - snd c - 2"
    by (simp add: c quarter_step_def Let_def)
  with g show "((a, b, quarter_step a b c), (a, b, c))
      \<in> measure (\<lambda>(a, b, c). nat (fst c - snd c + b + 1))"
    by simp
qed

text \<open>
  What holds of every point of the walk: it lies in the quarter, and its coordinates
  have the parity of \<open>a\<close> and \<open>b\<close>.
\<close>

definition on_quarter :: "int \<Rightarrow> int \<Rightarrow> int \<times> int \<Rightarrow> bool" where
  "on_quarter a b c \<longleftrightarrow>
     a mod 2 \<le> fst c \<and> fst c \<le> a \<and> (a - fst c) mod 2 = 0
     \<and> b mod 2 \<le> snd c \<and> snd c \<le> b \<and> (b - snd c) mod 2 = 0"

text \<open>
  \<^verbatim>\<open>ellipse_next\<close> with \<^verbatim>\<open>fill\<close>: every row \<open>y\<close> of the walk is drawn once above and once
  below the centre, from \<open>-r\<close> to \<open>r\<close>, where \<open>r\<close> is the first coordinate of the first
  point of the walk on that row (the later points of the row are skipped).
\<close>

definition row_extent :: "(int \<times> int) list \<Rightarrow> int \<Rightarrow> int option" where
  "row_extent pts y = map_option fst (find (\<lambda>p. snd p = y) pts)"

text \<open>
  Whether the pixel \<open>p\<close> of the mask of \<open>w\<close> by \<open>h\<close> pixels is drawn; the lines are
  clipped to the mask.
\<close>

definition ellipse_filled :: "int \<Rightarrow> int \<Rightarrow> int \<times> int \<Rightarrow> bool" where
  "ellipse_filled w h p =
     (case p of (x, y) \<Rightarrow>
        0 \<le> x \<and> x < w \<and> 0 \<le> y \<and> y < h
        \<and> (case row_extent (quarter_points w h (w, h mod 2)) \<bar>2 * y - h\<bar> of
              None \<Rightarrow> False
            | Some r \<Rightarrow> \<bar>2 * x - w\<bar> \<le> r))"

text \<open>The mask starts at 0 everywhere, and the drawn pixels are set to 255.\<close>

definition ellipse_alpha :: "int \<Rightarrow> int \<Rightarrow> int \<times> int \<Rightarrow> nat" where
  "ellipse_alpha w h p = (if ellipse_filled w h p then 255 else 0)"

section \<open>Properties of the preprocessing\<close>

lemma re_sub_class_empty_filter:
  "re_sub_class_empty cls s = filter (\<lambda>c. c \<notin> set cls) s"
  by (induction s) simp_all

lemma invisible_chars_pattern_set:
  "set invisible_chars_pattern = {0x200B, 0x200C, 0x200D, 0xFEFF, 0x200E, 0x200F}"
  by (simp add: invisible_chars_pattern_def)

text \<open>
  Claim C10. For every input string, \<^verbatim>\<open>remove_invisible_characters\<close> returns the
  string with every occurrence of exactly the six code points U+200B, U+200C, U+200D,
  U+FEFF, U+200E and U+200F deleted and every other character kept in its original
  order (the result is the input filtered by "not one of the six"); the function is
  idempotent; and a string containing none of the six code points is returned
  unchanged.
\<close>

theorem remove_invisible_characters_spec:
  "remove_invisible_characters s =
     filter (\<lambda>c. c \<notin> {0x200B, 0x200C, 0x200D, 0xFEFF, 0x200E, 0x200F}) s
   \<and> remove_invisible_characters (remove_invisible_characters s) =
     remove_invisible_characters s
   \<and> (set s \<inter> {0x200B, 0x200C, 0x200D, 0xFEFF, 0x200E, 0x200F} = {}
        \<longrightarrow> remove_invisible_characters s = s)"
proof -
  let ?inv = "{0x200B, 0x200C, 0x200D, 0xFEFF, 0x200E, 0x200F} :: nat set"
  have eq: "remove_invisible_characters t = filter (\<lambda>c. c \<notin> ?inv) t" for t
    unfolding remove_invisible_characters_def re_sub_class_empty_filter
      invisible_chars_pattern_set ..
  have idem: "remove_invisible_characters (remove_invisible_characters s) =
      remove_invisible_characters s"
    unfolding eq by simp
  have unchanged: "set s \<inter> ?inv = {} \<longrightarrow> remove_invisible_characters s = s"
  proof
    assume "set s \<inter> ?inv = {}"
    then have "\<forall>c \<in> set s. c \<notin> ?inv" by blast
    then have "filter (\<lambda>c. c \<notin> ?inv) s = s" by (rule filter_True)
    then show "remove_invisible_characters s = s" unfolding eq .
  qed
  from eq [of s] idem unchanged show ?thesis by blast
qed

theorem remove_invisible_characters_spec_witness:
  "remove_invisible_characters [72, 0x200B, 105, 0xFEFF] = [72, 105]
   \<and> set [72::nat, 105] \<inter> {0x200B, 0x200C, 0x200D, 0xFEFF, 0x200E, 0x200F} = {}
   \<and> remove_invisible_characters [72, 105] = [72, 105]"
  using remove_invisible_characters_spec [of "[72, 0x200B, 105, 0xFEFF]"]
    remove_invisible_characters_spec [of "[72, 105]"]
  by simp

section \<open>Properties of the output name\<close>

lemma digit_val_digit_char: "d < 10 \<Longrightarrow> digit_val (digit_char d) = d"
  by (simp add: digit_val_def digit_char_def)

lemma nat_of_digits_str_nat: "nat_of_digits (str_nat n) = n"
proof (induction n rule: str_nat.induct)
  case (1 n)
  show ?case
  proof (cases "n < 10")
    case True
    then show ?thesis
      by (subst str_nat.simps) (simp add: nat_of_digits_def digit_val_digit_char)
  next
    case False
    with 1 have ih: "nat_of_digits (str_nat (n div 10)) = n div 10" by simp
    have "nat_of_digits (str_nat n) = 10 * nat_of_digits (str_nat (n div 10)) + n mod 10"
      using False
      by (subst str_nat.simps) (simp add: nat_of_digits_def digit_val_digit_char)
    with ih show ?thesis by simp
  qed
qed

lemma str_nat_inj: "str_nat m = str_nat n \<Longrightarrow> m = n"
  by (metis nat_of_digits_str_nat)

lemma set_str_nat: "set (str_nat n) \<subseteq> digit_char ` {0..<10}"
proof (induction n rule: str_nat.induct)
  case (1 n)
  show ?case
  proof (cases "n < 10")
    case True
    then show ?thesis by (subst str_nat.simps) simp
  next
    case False
    with 1 have "set (str_nat (n div 10)) \<subseteq> digit_char ` {0..<10}" by simp
    then show ?thesis using False by (subst str_nat.simps) simp
  qed
qed

lemma of_char_digit_char: "d < 10 \<Longrightarrow> (of_char (digit_char d) :: nat) = 48 + d"
  by (simp add: digit_char_def)

lemma digit_char_not_sep:
  assumes "d < 10"
  shows "digit_char d \<noteq> CHR ''-''" and "digit_char d \<noteq> CHR ''_''"
proof -
  have "(of_char (digit_char d) :: nat) \<noteq> of_char CHR ''-''"
    using assms by (simp add: of_char_digit_char)
  then show "digit_char d \<noteq> CHR ''-''" by metis
  have "(of_char (digit_char d) :: nat) \<noteq> of_char CHR ''_''"
    using assms by (simp add: of_char_digit_char)
  then show "digit_char d \<noteq> CHR ''_''" by metis
qed

lemma str_nat_no_sep: "CHR ''-'' \<notin> set (str_nat n)" "CHR ''_'' \<notin> set (str_nat n)"
  using set_str_nat [of n] digit_char_not_sep by fastforce+

lemma str_nat_nonempty: "str_nat n \<noteq> []"
  by (subst str_nat.simps) simp

lemma str_int_inj: "str_int i = str_int j \<Longrightarrow> i = j"
proof -
  assume eq: "str_int i = str_int j"
  have hd_nat: "hd (str_nat n) \<noteq> CHR ''-''" for n
    using str_nat_no_sep(1) [of n] str_nat_nonempty [of n] by (cases "str_nat n") auto
  show "i = j"
  proof (cases "i < 0")
    case True
    show ?thesis
    proof (cases "j < 0")
      case True
      with \<open>i < 0\<close> eq have "str_nat (nat (- i)) = str_nat (nat (- j))"
        by (simp add: str_int_def)
      then have "nat (- i) = nat (- j)" by (rule str_nat_inj)
      with True \<open>i < 0\<close> show ?thesis by simp
    next
      case False
      with \<open>i < 0\<close> eq have "CHR ''-'' # str_nat (nat (- i)) = str_nat (nat j)"
        by (simp add: str_int_def)
      then have "hd (str_nat (nat j)) = CHR ''-''" by (metis list.sel(1))
      with hd_nat show ?thesis by blast
    qed
  next
    case False
    show ?thesis
    proof (cases "j < 0")
      case True
      with \<open>\<not> i < 0\<close> eq have "str_nat (nat i) = CHR ''-'' # str_nat (nat (- j))"
        by (simp add: str_int_def)
      then have "hd (str_nat (nat i)) = CHR ''-''" by (metis list.sel(1))
      with hd_nat show ?thesis by blast
    next
      case False
      with \<open>\<not> i < 0\<close> eq have "str_nat (nat i) = str_nat (nat j)"
        by (simp add: str_int_def)
      then have "nat i = nat j" by (rule str_nat_inj)
      with False \<open>\<not> i < 0\<close> show ?thesis by simp
    qed
  qed
qed

lemma str_int_no_underscore: "CHR ''_'' \<notin> set (str_int i)"
  using str_nat_no_sep(2) by (simp add: str_int_def)

lemma takeWhile_upto_separator:
  "c \<notin> set xs \<Longrightarrow> takeWhile (\<lambda>x. x \<noteq> c) (xs @ c # ys) = xs"
  by (induction xs) auto

lemma split_at_separator:
  assumes "xs @ c # ys = xs' @ c # ys'" and "c \<notin> set xs" and "c \<notin> set xs'"
  shows "xs = xs' \<and> ys = ys'"
proof -
  have "takeWhile (\<lambda>x. x \<noteq> c) (xs @ c # ys) = xs"
    using assms(2) by (rule takeWhile_upto_separator)
  moreover have "takeWhile (\<lambda>x. x \<noteq> c) (xs' @ c # ys') = xs'"
    using assms(3) by (rule takeWhile_upto_separator)
  ultimately have "xs = xs'" using assms(1) by simp
  with assms(1) show ?thesis by simp
qed

lemma os_path_join_relative:
  "b \<noteq> [] \<Longrightarrow> hd b \<noteq> CHR ''/'' \<Longrightarrow>
   os_path_join a b = (if a = [] \<or> last a = CHR ''/'' then a else a @ ''/'') @ b"
  by (simp add: os_path_join_def)

text \<open>
  Claim C9, as amended. Within one process (same process id, same temporary
  directory) two invocations of the rasterizer write to the same temporary path exactly
  when their slide indices agree and their fragment indices agree, where an absent index
  (\<^verbatim>\<open>None\<close>) counts as 0. Hence distinct pairs of integer indices never collide.
\<close>

theorem png_path_distinct:
  "png_path tmpdir pid s1 d1 = png_path tmpdir pid s2 d2
     \<longleftrightarrow> or_zero s1 = or_zero s2 \<and> or_zero d1 = or_zero d2"
proof
  assume eq: "png_path tmpdir pid s1 d1 = png_path tmpdir pid s2 d2"
  let ?pre = "(if tmpdir = [] \<or> last tmpdir = CHR ''/'' then tmpdir else tmpdir @ ''/'')
     @ ''div_render_pillow_'' @ str_int pid @ ''_''"
  have shape: "png_path tmpdir pid s d =
      ?pre @ str_int (or_zero s) @ CHR ''_'' # (str_int (or_zero d) @ ''.png'')" for s d
    unfolding png_path_def by (subst os_path_join_relative) simp_all
  from eq have "str_int (or_zero s1) @ CHR ''_'' # (str_int (or_zero d1) @ ''.png'')
      = str_int (or_zero s2) @ CHR ''_'' # (str_int (or_zero d2) @ ''.png'')"
    unfolding shape by (simp only: same_append_eq)
  then have "str_int (or_zero s1) = str_int (or_zero s2)
      \<and> str_int (or_zero d1) @ ''.png'' = str_int (or_zero d2) @ ''.png''"
    by (rule split_at_separator) (rule str_int_no_underscore)+
  then show "or_zero s1 = or_zero s2 \<and> or_zero d1 = or_zero d2"
    by (auto dest: str_int_inj)
next
  assume "or_zero s1 = or_zero s2 \<and> or_zero d1 = or_zero d2"
  then show "png_path tmpdir pid s1 d1 = png_path tmpdir pid s2 d2"
    by (simp add: png_path_def)
qed

theorem png_path_distinct_witness:
  "png_path ''/tmp'' 4242 (Some 1) (Some 2) \<noteq> png_path ''/tmp'' 4242 (Some 2) (Some 1)"
  using png_path_distinct [of "''/tmp''" 4242 "Some 1" "Some 2" "Some 2" "Some 1"]
  by (simp add: or_zero_def)

text \<open>
  Claim C9 as stated fails: the index pairs \<open>(None, 3)\<close> and \<open>(0, 3)\<close> are distinct
  and give the same path.
\<close>

theorem png_path_collision:
  "(None :: int option, Some (3::int)) \<noteq> (Some 0, Some 3)
   \<and> png_path ''/tmp'' 4242 None (Some 3) = png_path ''/tmp'' 4242 (Some 0) (Some 3)"
  by (simp add: png_path_def or_zero_def)

section \<open>Properties of the block lookup\<close>

lemma starts_with_iff: "starts_with tok s \<longleftrightarrow> (\<exists>post. s = tok @ post)"
  by (induction tok s rule: starts_with.induct) auto

lemma token_here_iff:
  "token_here tok s \<longleftrightarrow> (\<exists>post. s = tok @ post \<and> (post = [] \<or> \<not> is_ident_char (hd post)))"
proof
  assume "token_here tok s"
  then obtain post where s: "s = tok @ post"
    and b: "case drop (length tok) s of [] \<Rightarrow> True | c # _ \<Rightarrow> \<not> is_ident_char c"
    by (auto simp: token_here_def starts_with_iff)
  from b have "post = [] \<or> \<not> is_ident_char (hd post)"
    unfolding s by (cases post) simp_all
  with s show "\<exists>post. s = tok @ post \<and> (post = [] \<or> \<not> is_ident_char (hd post))" by blast
next
  assume "\<exists>post. s = tok @ post \<and> (post = [] \<or> \<not> is_ident_char (hd post))"
  then obtain post where s: "s = tok @ post"
    and b: "post = [] \<or> \<not> is_ident_char (hd post)" by blast
  have "starts_with tok s" unfolding starts_with_iff using s by blast
  moreover have "case drop (length tok) s of [] \<Rightarrow> True | c # _ \<Rightarrow> \<not> is_ident_char c"
    unfolding s using b by (cases post) simp_all
  ultimately show "token_here tok s" by (simp add: token_here_def)
qed

text \<open>The scan with a remembered previous character finds exactly the bounded occurrences.\<close>

lemma search_bounded_iff:
  "search_bounded tok prev s \<longleftrightarrow>
     (\<exists>pre post. s = pre @ tok @ post
        \<and> (if pre = [] then left_bounded prev else \<not> is_ident_char (last pre))
        \<and> (post = [] \<or> \<not> is_ident_char (hd post)))"
proof (induction s arbitrary: prev)
  case Nil
  show ?case by (auto simp: token_here_iff)
next
  case (Cons c cs)
  show ?case
  proof
    assume "search_bounded tok prev (c # cs)"
    then consider (here) "left_bounded prev" "token_here tok (c # cs)"
      | (later) "search_bounded tok (Some c) cs" by auto
    then show "\<exists>pre post. c # cs = pre @ tok @ post
        \<and> (if pre = [] then left_bounded prev else \<not> is_ident_char (last pre))
        \<and> (post = [] \<or> \<not> is_ident_char (hd post))"
    proof cases
      case here
      from here(2) obtain post where "c # cs = tok @ post"
        "post = [] \<or> \<not> is_ident_char (hd post)" unfolding token_here_iff by blast
      with here(1) show ?thesis by (intro exI [of _ "[]"] exI [of _ post]) simp
    next
      case later
      then obtain pre post where cs: "cs = pre @ tok @ post"
        and l: "if pre = [] then left_bounded (Some c) else \<not> is_ident_char (last pre)"
        and r: "post = [] \<or> \<not> is_ident_char (hd post)"
        unfolding Cons.IH by blast
      from l have "\<not> is_ident_char (last (c # pre))"
        by (cases pre) (simp_all add: left_bounded_def)
      with cs r show ?thesis by (intro exI [of _ "c # pre"] exI [of _ post]) simp
    qed
  next
    assume "\<exists>pre post. c # cs = pre @ tok @ post
        \<and> (if pre = [] then left_bounded prev else \<not> is_ident_char (last pre))
        \<and> (post = [] \<or> \<not> is_ident_char (hd post))"
    then obtain pre post where s: "c # cs = pre @ tok @ post"
      and l: "if pre = [] then left_bounded prev else \<not> is_ident_char (last pre)"
      and r: "post = [] \<or> \<not> is_ident_char (hd post)" by blast
    show "search_bounded tok prev (c # cs)"
    proof (cases pre)
      case Nil
      with s r have "token_here tok (c # cs)" unfolding token_here_iff by auto
      with l Nil show ?thesis by simp
    next
      case (Cons p pre')
      with s have c: "p = c" and cs: "cs = pre' @ tok @ post" by simp_all
      from l Cons c have "if pre' = [] then left_bounded (Some c) else \<not> is_ident_char (last pre')"
        by (cases pre') (simp_all add: left_bounded_def)
      with cs r have "search_bounded tok (Some c) cs" unfolding Cons.IH by blast
      then show ?thesis by simp
    qed
  qed
qed

lemma selector_has_class_iff:
  "selector_has_class class_name s \<longleftrightarrow> bounded_occurrence (CHR ''.'' # class_name) s"
proof -
  have "(if pre = [] then left_bounded None else \<not> is_ident_char (last pre))
      \<longleftrightarrow> (pre = [] \<or> \<not> is_ident_char (last pre))" for pre
    by (simp add: left_bounded_def)
  then show ?thesis
    unfolding selector_has_class_def search_bounded_iff bounded_occurrence_def by simp
qed

lemma first_block_for_class_find:
  "first_block_for_class class_name ms = map_option snd (find (rule_names_class class_name) ms)"
proof (induction ms)
  case Nil
  show ?case by simp
next
  case (Cons m ms)
  obtain selectors body where m: "m = (selectors, body)" by (cases m)
  have "list_ex (selector_has_class class_name) (map strip (split_on CHR '','' selectors))
      \<longleftrightarrow> rule_names_class class_name m"
    unfolding m rule_names_class_def list_ex_iff selector_has_class_iff by simp
  with Cons.IH show ?case unfolding m by simp
qed

lemma takeWhile_upto_char:
  "c \<notin> set xs \<Longrightarrow> takeWhile (\<lambda>x. x \<noteq> c) (xs @ c # ys) = xs"
  by (induction xs) auto

lemma dropWhile_upto_char:
  "c \<notin> set xs \<Longrightarrow> dropWhile (\<lambda>x. x \<noteq> c) (xs @ c # ys) = c # ys"
  by (induction xs) auto

lemma next_rule_plain:
  assumes "sel \<noteq> []" "body \<noteq> []" "CHR ''{'' \<notin> set sel" "CHR ''}'' \<notin> set body"
  shows "next_rule (sel @ ''{'' @ body @ ''}'' @ rest) = Some (Some (sel, body), rest)"
proof -
  let ?s = "sel @ CHR ''{'' # (body @ CHR ''}'' # rest)"
  from assms(1,3) have s1: "dropWhile (\<lambda>c. c = CHR ''{'') ?s = ?s"
    by (cases sel) auto
  have sel: "takeWhile (\<lambda>c. c \<noteq> CHR ''{'') ?s = sel"
    using assms(3) by (rule takeWhile_upto_char)
  have r: "dropWhile (\<lambda>c. c \<noteq> CHR ''{'') ?s = CHR ''{'' # (body @ CHR ''}'' # rest)"
    using assms(3) by (rule dropWhile_upto_char)
  have body: "takeWhile (\<lambda>c. c \<noteq> CHR ''}'') (body @ CHR ''}'' # rest) = body"
    using assms(4) by (rule takeWhile_upto_char)
  have r2: "dropWhile (\<lambda>c. c \<noteq> CHR ''}'') (body @ CHR ''}'' # rest) = CHR ''}'' # rest"
    using assms(4) by (rule dropWhile_upto_char)
  have "next_rule ?s = Some (Some (sel, body), rest)"
    unfolding next_rule_def Let_def s1 sel r list.sel body r2 using assms(2) by simp
  then show ?thesis by simp
qed

lemma css_rules_render_rules:
  "list_all plain_rule rs \<Longrightarrow> css_rules (render_rules rs) = rs"
proof (induction rs)
  case Nil
  show ?case by (subst css_rules.simps) (simp add: render_rules_def next_rule_def)
next
  case (Cons rule rs)
  obtain sel body where rule: "rule = (sel, body)" by (cases rule)
  from Cons.prems have pr: "plain_rule (sel, body)" and rest: "list_all plain_rule rs"
    by (simp_all add: rule)
  from pr have p: "sel \<noteq> []" "body \<noteq> []" "CHR ''{'' \<notin> set sel" "CHR ''}'' \<notin> set body"
    by (simp_all add: plain_rule_def)
  have "render_rules (rule # rs) = sel @ ''{'' @ body @ ''}'' @ render_rules rs"
    by (simp add: render_rules_def rule)
  then have "css_rules (render_rules (rule # rs)) = (sel, body) # css_rules (render_rules rs)"
    by (subst css_rules.simps) (simp only: next_rule_plain [OF p] option.case prod.case)
  with Cons.IH [OF rest] show ?case by (simp add: rule)
qed

lemma space_not_ident: "is_space c \<Longrightarrow> \<not> is_ident_char c"
  by (auto simp: is_space_def is_ident_char_def Let_def)

lemma dropWhile_append_keep:
  "ys \<noteq> [] \<Longrightarrow> \<not> P (hd ys) \<Longrightarrow> dropWhile P (xs @ ys) = dropWhile P xs @ ys"
  by (induction xs) (auto simp: neq_Nil_conv)

lemma last_dropWhile: "dropWhile P xs \<noteq> [] \<Longrightarrow> last (dropWhile P xs) = last xs"
  by (induction xs) (auto split: if_splits)

lemma strip_frame:
  obtains ws1 ws2 where "s = ws1 @ strip s @ ws2"
    and "\<forall>c \<in> set ws1. is_space c" and "\<forall>c \<in> set ws2. is_space c"
proof
  let ?t = "dropWhile is_space s"
  have "?t = rev (takeWhile is_space (rev ?t) @ dropWhile is_space (rev ?t))"
    by (simp only: takeWhile_dropWhile_id rev_rev_ident)
  then have t: "?t = strip s @ rev (takeWhile is_space (rev ?t))"
    by (simp only: rev_append strip_def)
  have "s = takeWhile is_space s @ ?t" by simp
  with t show "s = takeWhile is_space s @ strip s @ rev (takeWhile is_space (rev ?t))"
    by simp
  show "\<forall>c \<in> set (takeWhile is_space s). is_space c"
    by (auto dest: set_takeWhileD)
  show "\<forall>c \<in> set (rev (takeWhile is_space (rev ?t))). is_space c"
    by (auto dest: set_takeWhileD)
qed

text \<open>
  An occurrence in the stripped selector is one in the selector, and for a token
  without white space the converse holds: stripping does not change the matching.
\<close>

lemma bounded_occurrence_strip:
  assumes "bounded_occurrence tok (strip s)"
  shows "bounded_occurrence tok s"
proof -
  from assms obtain pre post where st: "strip s = pre @ tok @ post"
    and l: "pre = [] \<or> \<not> is_ident_char (last pre)"
    and r: "post = [] \<or> \<not> is_ident_char (hd post)"
    unfolding bounded_occurrence_def by blast
  obtain ws1 ws2 where s: "s = ws1 @ strip s @ ws2"
    and w1: "\<forall>c \<in> set ws1. is_space c" and w2: "\<forall>c \<in> set ws2. is_space c"
    by (rule strip_frame)
  have s': "s = (ws1 @ pre) @ tok @ (post @ ws2)" using s st by simp
  have "ws1 @ pre = [] \<or> \<not> is_ident_char (last (ws1 @ pre))"
  proof (cases "pre = []")
    case True
    show ?thesis
    proof (cases "ws1 = []")
      case False
      then have "last ws1 \<in> set ws1" by (rule last_in_set)
      with w1 have "is_space (last ws1)" by blast
      then have "\<not> is_ident_char (last ws1)" by (rule space_not_ident)
      with True show ?thesis by simp
    qed (use True in simp)
  next
    case False
    with l show ?thesis by simp
  qed
  moreover have "post @ ws2 = [] \<or> \<not> is_ident_char (hd (post @ ws2))"
  proof (cases "post = []")
    case True
    show ?thesis
    proof (cases ws2)
      case (Cons c cs)
      with w2 have "is_space c" by simp
      then have "\<not> is_ident_char c" by (rule space_not_ident)
      with True Cons show ?thesis by simp
    qed (use True in simp)
  next
    case False
    with r show ?thesis by simp
  qed
  ultimately show ?thesis unfolding bounded_occurrence_def using s' by blast
qed

lemma strip_bounded_occurrence:
  assumes "bounded_occurrence tok s" and "tok \<noteq> []"
    and "\<not> is_space (hd tok)" and "\<not> is_space (last tok)"
  shows "bounded_occurrence tok (strip s)"
proof -
  from assms(1) obtain pre post where s: "s = pre @ tok @ post"
    and l: "pre = [] \<or> \<not> is_ident_char (last pre)"
    and r: "post = [] \<or> \<not> is_ident_char (hd post)"
    unfolding bounded_occurrence_def by blast
  let ?pre = "dropWhile is_space pre"
  let ?post = "rev (dropWhile is_space (rev post))"
  have "dropWhile is_space s = ?pre @ tok @ post"
    unfolding s using assms(2,3) by (simp add: dropWhile_append_keep)
  then have "rev (dropWhile is_space s) = rev post @ (rev tok @ rev ?pre)" by simp
  moreover have "dropWhile is_space (rev post @ (rev tok @ rev ?pre))
      = dropWhile is_space (rev post) @ (rev tok @ rev ?pre)"
    using assms(2,4) by (intro dropWhile_append_keep) (simp_all add: hd_rev)
  ultimately have st: "strip s = ?pre @ tok @ ?post" by (simp add: strip_def)
  have "?pre = [] \<or> \<not> is_ident_char (last ?pre)"
  proof (cases "?pre = []")
    case False
    then have "last ?pre = last pre" by (rule last_dropWhile)
    moreover from False have "pre \<noteq> []" by auto
    ultimately show ?thesis using l by simp
  qed simp
  moreover have "?post = [] \<or> \<not> is_ident_char (hd ?post)"
  proof (cases "?post = []")
    case False
    then have ne: "dropWhile is_space (rev post) \<noteq> []" by simp
    then have "last (dropWhile is_space (rev post)) = last (rev post)" by (rule last_dropWhile)
    moreover from False have "post \<noteq> []" by auto
    ultimately have "hd ?post = hd post" using ne by (simp add: hd_rev last_rev)
    with r \<open>post \<noteq> []\<close> show ?thesis by simp
  qed simp
  ultimately show ?thesis unfolding bounded_occurrence_def using st by blast
qed

lemma rule_names_class_unstripped:
  assumes "\<forall>c \<in> set class_name. \<not> is_space c"
  shows "rule_names_class class_name rule \<longleftrightarrow>
    (\<exists>sel \<in> set (split_on CHR '','' (fst rule)). bounded_occurrence (CHR ''.'' # class_name) sel)"
proof -
  let ?tok = "CHR ''.'' # class_name"
  have dot: "\<not> is_space CHR ''.''" by (simp add: is_space_def)
  have "\<not> is_space (hd ?tok)" using dot by simp
  moreover have "\<not> is_space (last ?tok)" using dot assms by (cases "class_name = []") simp_all
  ultimately have "bounded_occurrence ?tok (strip sel) \<longleftrightarrow> bounded_occurrence ?tok sel" for sel
    using bounded_occurrence_strip [of ?tok sel] strip_bounded_occurrence [of ?tok sel]
    by blast
  then show ?thesis by (simp add: rule_names_class_def)
qed

text \<open>
  Claim C5. For every stylesheet text and class name, \<^verbatim>\<open>_css_block_for_class\<close>
  returns the declaration block of the first rule (the first match of
  \<^verbatim>\<open>selectors{body}\<close>) whose selector list, split on \<^verbatim>\<open>,\<close> contains a selector in
  which the token \<^verbatim>\<open>.<class>\<close> occurs bounded on both sides by the end of the selector
  or a character that is not a letter, a digit, \<^verbatim>\<open>_\<close> or \<^verbatim>\<open>-\<close>; it returns no block
  otherwise, and none for an absent stylesheet. The matching is bounded containment
  only; the stripping of the selectors does not change it for a class name without
  white space. A stylesheet written as a sequence of rules with non-empty brace-free
  selectors and bodies is read back as exactly those rules.
\<close>

theorem css_block_for_class_first_rule:
  "css_block_for_class (Some css) class_name =
     map_option snd (find (rule_names_class class_name) (css_rules css))
   \<and> css_block_for_class None class_name = None
   \<and> ((\<forall>c \<in> set class_name. \<not> is_space c) \<longrightarrow>
        (rule_names_class class_name rule \<longleftrightarrow>
          (\<exists>sel \<in> set (split_on CHR '','' (fst rule)).
             bounded_occurrence (CHR ''.'' # class_name) sel)))
   \<and> (list_all plain_rule rs \<longrightarrow> css_rules (render_rules rs) = rs)"
proof -
  have "css_rules [] = []"
    by (subst css_rules.simps) (simp add: next_rule_def)
  then have "css_block_for_class (Some css) class_name =
     map_option snd (find (rule_names_class class_name) (css_rules css))"
    by (cases "css = []") (simp_all add: css_block_for_class_def first_block_for_class_find)
  moreover have "css_block_for_class None class_name = None"
    by (simp add: css_block_for_class_def)
  ultimately show ?thesis
    using css_rules_render_rules [of rs] rule_names_class_unstripped [of class_name rule]
    by blast
qed

theorem css_block_for_class_first_rule_witness:
  "list_all plain_rule [(''div > .a:hover '', '' x:1 ''), (''.ab, p.a-b'', ''y:2''), (''.a'', ''z:3'')]
   \<and> css_rules ''div > .a:hover { x:1 }.ab, p.a-b{y:2}.a{z:3}''
       = [(''div > .a:hover '', '' x:1 ''), (''.ab, p.a-b'', ''y:2''), (''.a'', ''z:3'')]
   \<and> css_block_for_class (Some ''div > .a:hover { x:1 }.ab, p.a-b{y:2}.a{z:3}'') ''a''
       = Some '' x:1 ''
   \<and> css_block_for_class (Some ''.ab, p.a-b{y:2}.a{z:3}'') ''a'' = Some ''z:3''
   \<and> css_block_for_class (Some ''.ab, p.a-b{y:2}'') ''a'' = None
   \<and> rule_names_class ''a'' (''div > .a:hover '', '' x:1 '')"
proof -
  let ?rs = "[(''div > .a:hover '', '' x:1 ''), (''.ab, p.a-b'', ''y:2''), (''.a'', ''z:3'')]"
  have plain: "list_all plain_rule ?rs" by (simp add: plain_rule_def)
  have "css_rules (render_rules ?rs) = ?rs"
    using css_block_for_class_first_rule [of "[]" "[]" "([], [])" ?rs] plain by blast
  then have rules: "css_rules ''div > .a:hover { x:1 }.ab, p.a-b{y:2}.a{z:3}'' = ?rs"
    by (simp add: render_rules_def)
  have "css_block_for_class (Some ''div > .a:hover { x:1 }.ab, p.a-b{y:2}.a{z:3}'') ''a''
       = Some '' x:1 ''" by code_simp
  moreover have "css_block_for_class (Some ''.ab, p.a-b{y:2}.a{z:3}'') ''a'' = Some ''z:3''"
    by code_simp
  moreover have "css_block_for_class (Some ''.ab, p.a-b{y:2}'') ''a'' = None"
    by code_simp
  moreover have "rule_names_class ''a'' (''div > .a:hover '', '' x:1 '')"
  proof -
    have "''div > .a:hover '' = ''div > '' @ ''.a'' @ '':hover ''" by simp
    moreover have "\<not> is_ident_char (last ''div > '')" "\<not> is_ident_char (hd '':hover '')"
      by (simp_all add: is_ident_char_def)
    ultimately have "bounded_occurrence ''.a'' ''div > .a:hover ''"
      unfolding bounded_occurrence_def by blast
    moreover have "\<forall>c \<in> set ''a''. \<not> is_space c" by (simp add: is_space_def)
    ultimately show ?thesis
      using css_block_for_class_first_rule
        [of "[]" "''a''" "(''div > .a:hover '', '' x:1 '')" "[]"]
      by simp
  qed
  ultimately show ?thesis using plain rules by blast
qed

section \<open>Properties of the target size\<close>

text \<open>
  A run of more than 4300 digits makes \<^verbatim>\<open>int\<close> raise; the \<^verbatim>\<open>except\<close> clause leaves the
  target as it was: the default for an inline value, both targets for the width of a
  class rule.
\<close>

lemma int_of_digits_limit: "int_of_digits ds = None \<longleftrightarrow> 4300 < length ds"
  by (simp add: int_of_digits_def int_max_str_digits_def)

lemma inline_px_limit:
  assumes "search_from (match_px prop) style = Some ds" and "4300 < length ds"
  shows "inline_px prop style = None"
  using assms int_of_digits_limit [of ds] by (simp add: inline_px_def)

lemma resolve_target_size_inline_limit:
  assumes "search_from (match_px ''width'') style = Some ds" and "4300 < length ds"
  shows "fst (resolve_target_size style None classes) = 400"
  using inline_px_limit [OF assms]
  by (simp add: resolve_target_size_def Let_def split: option.splits)

lemma class_size_width_limit:
  assumes "class_px_digits w_val = Some ds" and "4300 < length ds"
  shows "class_size w_val h_val target = target"
  using assms int_of_digits_limit [of ds] by (cases target) (simp add: class_size_def)

lemma class_size_height_limit:
  assumes "class_px_digits w_val = None"
    and "class_px_digits h_val = Some ds" and "4300 < length ds"
  shows "class_size w_val h_val target = target"
  using assms int_of_digits_limit [of ds] by (cases target) (simp add: class_size_def)

text \<open>
  Claim C3 says that an inline pixel width or height on the fragment is taken first
  and a class rule only when no inline value is present. The code assigns the inline
  value first and then lets the value of the first matching class rule replace it.
  Evaluated: with both \<^verbatim>\<open>width:100px; height:120px\<close> inline and a rule
  \<^verbatim>\<open>.box { width: 200px; height: 300px }\<close> the target is 200 by 300; the inline value
  decides only when no class rule gives one, and 400 by 400 is the default.
\<close>

theorem resolve_target_size_class_replaces_inline:
  "resolve_target_size ''width:100px; height:120px''
     (Some ''.box { width: 200px; height: 300px }'') [''box''] = (200, 300)
   \<and> resolve_target_size ''width:100px; height:120px''
     (Some ''.box { width: 200px; height: 300px }'') [''portrait''] = (100, 120)
   \<and> resolve_target_size ''width:100px; height:120px'' None [''box''] = (100, 120)
   \<and> resolve_target_size ''color:red''
     (Some ''.box { width: 200px; height: 300px }'') [''box''] = (200, 300)
   \<and> resolve_target_size ''color:red'' None [''box''] = (400, 400)"
  by code_simp

section \<open>Properties of the source resolution\<close>

lemma no_source_resolve_src: "no_source d css \<Longrightarrow> resolve_src d css = []"
  by (auto simp: no_source_def resolve_src_def background_src_def
      split: option.splits if_splits)

lemma main_no_source:
  "resolve_src d css = [] \<Longrightarrow>
   main e d css save_copy_to slide_index div_index = ([Warn_no_source], Inr None)"
  by (simp add: main_def)

lemma main_invalid_src:
  assumes "resolve_src d css \<noteq> []"
    and "\<not> valid_http_url e (resolve_src d css)"
    and "is_file e (resolve_src d css) = Inr False"
  shows "main e d css save_copy_to slide_index div_index
    = ([Warn_invalid_src (resolve_src d css)], Inr None)"
  using assms by (simp add: main_def validate_src_def)

lemma main_download_failed:
  assumes "resolve_src d css \<noteq> []"
    and "valid_http_url e (resolve_src d css)"
    and "download_image e (resolve_src d css) = None"
  shows "main e d css save_copy_to slide_index div_index
    = ([Error_load_failed (resolve_src d css)], Inr None)"
  using assms by (simp add: main_def validate_src_def load_image_def)

lemma main_open_failed:
  assumes "resolve_src d css \<noteq> []"
    and "\<not> valid_http_url e (resolve_src d css)"
    and "is_file e (resolve_src d css) = Inr True"
    and "open_image e (path_str e (resolve_src d css)) = None"
  shows "main e d css save_copy_to slide_index div_index
    = ([Error_load_failed (path_str e (resolve_src d css))], Inr None)"
  using assms by (simp add: main_def validate_src_def load_image_def)

text \<open>
  An exception of the file-system call leaves \<^verbatim>\<open>main\<close> as it is, with nothing logged.
\<close>

lemma main_check_raised:
  assumes "resolve_src d css \<noteq> []"
    and "\<not> valid_http_url e (resolve_src d css)"
    and "is_file e (resolve_src d css) = Inl err"
  shows "main e d css save_copy_to slide_index div_index = ([], Inl err)"
  using assms by (simp add: main_def validate_src_def)

text \<open>
  Where the file-system call answers, the failures that claim C8 lists end as it
  says: \<^verbatim>\<open>None\<close> is returned and a warning or an error is logged.
\<close>

lemma main_failure_returns_None:
  assumes "no_source d css \<or> resolve_src d css = []
    \<or> (\<not> valid_http_url e (resolve_src d css) \<and> is_file e (resolve_src d css) = Inr False)
    \<or> (valid_http_url e (resolve_src d css) \<and> download_image e (resolve_src d css) = None)
    \<or> (\<not> valid_http_url e (resolve_src d css) \<and> is_file e (resolve_src d css) = Inr True
        \<and> open_image e (path_str e (resolve_src d css)) = None)"
  shows "snd (main e d css save_copy_to slide_index div_index) = Inr None
    \<and> fst (main e d css save_copy_to slide_index div_index) \<noteq> []"
proof (cases "resolve_src d css = []")
  case True
  then show ?thesis by (simp add: main_no_source)
next
  case False
  with assms no_source_resolve_src [of d css] consider
      (invalid) "\<not> valid_http_url e (resolve_src d css)"
        "is_file e (resolve_src d css) = Inr False"
    | (download) "valid_http_url e (resolve_src d css)"
        "download_image e (resolve_src d css) = None"
    | (local) "\<not> valid_http_url e (resolve_src d css)"
        "is_file e (resolve_src d css) = Inr True"
        "open_image e (path_str e (resolve_src d css)) = None"
    by auto
  then show ?thesis
  proof cases
    case invalid
    with False show ?thesis by (simp add: main_invalid_src)
  next
    case download
    with False show ?thesis by (simp add: main_download_failed)
  next
    case local
    with False show ?thesis by (simp add: main_open_failed)
  qed
qed

text \<open>
  An exception leaves \<^verbatim>\<open>main\<close> in two ways only: from the file-system call on a source
  that is not a URL, or from the rendering of an image that was loaded.
\<close>

lemma main_raises_cases:
  assumes "snd (main e d css save_copy_to slide_index div_index) = Inl err"
  shows "(resolve_src d css \<noteq> [] \<and> \<not> valid_http_url e (resolve_src d css)
      \<and> is_file e (resolve_src d css) = Inl err)
    \<or> (err = Render_error
      \<and> (\<exists>is_remote src img. validate_src e (resolve_src d css) = Accepted is_remote src
            \<and> load_image e is_remote src = Some img
            \<and> \<not> render_ok e img d css save_copy_to slide_index div_index))"
  using assms
  by (auto simp: main_def validate_src_def Let_def
      split: if_splits src_check.splits option.splits sum.splits bool.splits)

lemma main_runs:
  "main witness_env (witness_div None) None None (Some 0) (Some 0)
       = ([Warn_no_source], Inr None)"
  "main witness_env (witness_div (Some ''nowhere.png'')) None None (Some 0) (Some 0)
       = ([Warn_invalid_src ''nowhere.png''], Inr None)"
  "main witness_env (witness_div (Some ''https://example.test/img.png'')) None None
       (Some 0) (Some 0)
       = ([Error_load_failed ''https://example.test/img.png''], Inr None)"
  "main witness_env (witness_div (Some ''broken.png'')) None None (Some 0) (Some 0)
       = ([Error_load_failed ''broken.png''], Inr None)"
  "main witness_env (witness_div (Some ''good.png'')) None None (Some 0) (Some 0)
       = ([], Inr (Some ''/tmp/div_render_pillow_4242_0_0.png''))"
  "main witness_env
       \<lparr>div_classes = [], div_style = ''width:0px'',
        div_img = Some \<lparr>img_src = Some ''good.png'', img_style = []\<rparr>\<rparr>
       None None (Some 0) (Some 0)
       = ([], Inl Render_error)"
  by code_simp+

text \<open>
  Claim C8 says that a fragment whose source string is neither a valid remote URL
  nor an existing local file makes the rasterizer return \<^verbatim>\<open>None\<close> without raising.
  The docstring of \<^verbatim>\<open>main\<close> says the same ("Returns the PNG path or None on failure"),
  and the load that follows is wrapped in \<^verbatim>\<open>try ... except Exception\<close>. The test
  \<^verbatim>\<open>Path(src).is_file()\<close> is not: for the \<^verbatim>\<open>src\<close> of 300 letters, which is no URL and names
  no file, the file-system call raises \<^verbatim>\<open>OSError\<close> (\<^verbatim>\<open>ENAMETOOLONG\<close>), and \<^verbatim>\<open>main\<close> raises
  it to its caller with nothing logged. Evaluated, beside a short name of a missing
  file, for which the warning is logged and \<^verbatim>\<open>None\<close> returned.
\<close>

theorem main_raises_on_long_file_name:
  "length long_name = 300
   \<and> resolve_src (witness_div (Some long_name)) None = long_name
   \<and> valid_http_url witness_env long_name = False
   \<and> is_file witness_env long_name = Inl OSError
   \<and> main witness_env (witness_div (Some long_name)) None None (Some 0) (Some 0)
       = ([], Inl OSError)
   \<and> main witness_env (witness_div (Some ''nowhere.png'')) None None (Some 0) (Some 0)
       = ([Warn_invalid_src ''nowhere.png''], Inr None)"
  by code_simp

section \<open>Properties of the region calculator\<close>

lemma step_bounds:
  fixes len count :: int
  assumes "1 \<le> count" "0 \<le> len"
  shows "0 \<le> len div count" and "count * (len div count) \<le> len"
proof -
  from assms show "0 \<le> len div count" by (simp add: pos_imp_zdiv_nonneg_iff)
  have "count * (len div count) + len mod count = len" by simp
  moreover have "0 \<le> len mod count" using assms by simp
  ultimately show "count * (len div count) \<le> len" by linarith
qed

lemma floor_step:
  fixes x step :: int
  assumes "0 < step"
  shows "(x div step) * step \<le> x" and "x < (x div step) * step + step"
proof -
  have "(x div step) * step + x mod step = x" by simp
  moreover have "0 \<le> x mod step" "x mod step < step" using assms by simp_all
  ultimately show "(x div step) * step \<le> x" and "x < (x div step) * step + step"
    by linarith+
qed

lemma slice_1d_parts:
  "fst (slice_1d len i count) = i * (len div count)"
  "snd (slice_1d len i count) =
     (if i = count - 1 then len - i * (len div count) else len div count)"
  by (simp_all add: slice_1d_def Let_def)

lemma slice_1d_cover:
  assumes "1 \<le> count" "0 \<le> x" "x < len"
  shows "\<exists>i. 0 \<le> i \<and> i < count
    \<and> fst (slice_1d len i count) \<le> x
    \<and> x < fst (slice_1d len i count) + snd (slice_1d len i count)"
proof -
  define step where "step = len div count"
  have step0: "0 \<le> step" using assms unfolding step_def by (simp add: step_bounds)
  show ?thesis
  proof (cases "step = 0 \<or> count - 1 \<le> x div step")
    case True
    have "(count - 1) * step \<le> x"
    proof (cases "step = 0")
      case True
      with assms show ?thesis by simp
    next
      case False
      with True step0 have pos: "0 < step" and le: "count - 1 \<le> x div step" by auto
      from le step0 have "(count - 1) * step \<le> (x div step) * step"
        by (rule mult_right_mono)
      with floor_step(1) [OF pos, of x] show ?thesis by linarith
    qed
    with assms show ?thesis
      by (intro exI [of _ "count - 1"]) (simp add: slice_1d_parts step_def)
  next
    case False
    with step0 have pos: "0 < step" and lt: "x div step < count - 1" by auto
    have "0 \<le> x div step" using assms pos by (simp add: pos_imp_zdiv_nonneg_iff)
    with lt floor_step [OF pos, of x] show ?thesis
      by (intro exI [of _ "x div step"]) (simp add: slice_1d_parts step_def [symmetric])
  qed
qed

lemma slice_1d_inside:
  assumes "1 \<le> count" "0 \<le> len" "0 \<le> i" "i < count"
    and "fst (slice_1d len i count) \<le> x"
    and "x < fst (slice_1d len i count) + snd (slice_1d len i count)"
  shows "0 \<le> x \<and> x < len"
proof -
  define step where "step = len div count"
  have step0: "0 \<le> step" and full: "count * step \<le> len"
    using assms(1,2) unfolding step_def by (simp_all add: step_bounds)
  have off: "0 \<le> i * step" using assms(3) step0 by simp
  from assms(5) have low: "i * step \<le> x" by (simp add: slice_1d_parts step_def)
  show ?thesis
  proof (cases "i = count - 1")
    case True
    with assms(6) have "x < len" by (simp add: slice_1d_parts step_def)
    with off low show ?thesis by linarith
  next
    case False
    with assms(6) have up: "x < i * step + step" by (simp add: slice_1d_parts step_def)
    from False assms(4) have "i + 1 \<le> count" by simp
    then have "(i + 1) * step \<le> count * step" using step0 by (rule mult_right_mono)
    then have "i * step + step \<le> count * step" by (simp add: algebra_simps)
    with up full off low show ?thesis by linarith
  qed
qed

lemma slice_1d_disjoint_less:
  assumes "1 \<le> count" "0 \<le> len" "0 \<le> i" "i < j" "j < count"
    and "x < fst (slice_1d len i count) + snd (slice_1d len i count)"
    and "fst (slice_1d len j count) \<le> x"
  shows False
proof -
  define step where "step = len div count"
  have step0: "0 \<le> step" using assms(1,2) unfolding step_def by (simp add: step_bounds)
  from assms(4,5) have "i \<noteq> count - 1" by simp
  with assms(6) have up: "x < i * step + step" by (simp add: slice_1d_parts step_def)
  from assms(7) have low: "j * step \<le> x" by (simp add: slice_1d_parts step_def)
  from assms(4) have "i + 1 \<le> j" by simp
  then have "(i + 1) * step \<le> j * step" using step0 by (rule mult_right_mono)
  then have "i * step + step \<le> j * step" by (simp add: algebra_simps)
  with up low show False by linarith
qed

lemma slice_1d_disjoint:
  assumes "1 \<le> count" "0 \<le> len" "0 \<le> i" "i < count" "0 \<le> j" "j < count"
    and "fst (slice_1d len i count) \<le> x"
    and "x < fst (slice_1d len i count) + snd (slice_1d len i count)"
    and "fst (slice_1d len j count) \<le> x"
    and "x < fst (slice_1d len j count) + snd (slice_1d len j count)"
  shows "i = j"
proof (rule ccontr)
  assume "i \<noteq> j"
  then consider "i < j" | "j < i" by linarith
  then show False
  proof cases
    case 1
    with assms show False using slice_1d_disjoint_less [of count len i j x] by blast
  next
    case 2
    with assms show False using slice_1d_disjoint_less [of count len j i x] by blast
  qed
qed

lemma slice_1d_size:
  assumes "1 \<le> count" "0 \<le> len" "0 \<le> i" "i < count"
  shows "0 \<le> snd (slice_1d len i count)"
    and "count \<le> len \<Longrightarrow> 0 < snd (slice_1d len i count)"
proof -
  define step where "step = len div count"
  have step0: "0 \<le> step" and full: "count * step \<le> len"
    using assms(1,2) unfolding step_def by (simp_all add: step_bounds)
  have last: "(count - 1) * step = count * step - step" by (simp add: algebra_simps)
  show "0 \<le> snd (slice_1d len i count)"
    using step0 full last by (simp add: slice_1d_parts step_def [symmetric])
  assume "count \<le> len"
  then have "1 \<le> step" unfolding step_def using assms(1)
    by (metis div_self not_one_le_zero zdiv_mono1 zero_less_one order_less_le_trans less_le)
  then show "0 < snd (slice_1d len i count)"
    using full last by (simp add: slice_1d_parts step_def [symmetric])
qed

lemma in_region_simp:
  "in_region (rx, ry, rw, rh) (x, y) \<longleftrightarrow> rx \<le> x \<and> x < rx + rw \<and> ry \<le> y \<and> y < ry + rh"
  by (simp add: in_region_def)

lemma in_slice_region:
  "in_region (slice_region (rx, ry, rw, rh) i count Horizontal) (x, y) \<longleftrightarrow>
     fst (slice_1d rw i count) \<le> x - rx
     \<and> x - rx < fst (slice_1d rw i count) + snd (slice_1d rw i count)
     \<and> ry \<le> y \<and> y < ry + rh"
  "in_region (slice_region (rx, ry, rw, rh) i count Vertical) (x, y) \<longleftrightarrow>
     fst (slice_1d rh i count) \<le> y - ry
     \<and> y - ry < fst (slice_1d rh i count) + snd (slice_1d rh i count)
     \<and> rx \<le> x \<and> x < rx + rw"
  by (auto simp: slice_region_def in_region_def split: prod.splits)

text \<open>Slicing a rectangle with non-negative sides tiles it, along either axis.\<close>

lemma slice_region_tiles:
  assumes "1 \<le> count" "0 \<le> rw" "0 \<le> rh"
  shows "tiles (rx, ry, rw, rh) count (\<lambda>i. slice_region (rx, ry, rw, rh) i count dir)"
proof (cases dir)
  case Horizontal
  have cover: "in_region (rx, ry, rw, rh) p \<longleftrightarrow>
      (\<exists>i. 0 \<le> i \<and> i < count \<and> in_region (slice_region (rx, ry, rw, rh) i count Horizontal) p)"
    for p
  proof (cases p)
    case (Pair x y)
    show ?thesis unfolding Pair in_slice_region in_region_simp
    proof
      assume a: "rx \<le> x \<and> x < rx + rw \<and> ry \<le> y \<and> y < ry + rh"
      then have "0 \<le> x - rx" "x - rx < rw" by simp_all
      from slice_1d_cover [OF assms(1) this] a
      show "\<exists>i. 0 \<le> i \<and> i < count \<and> fst (slice_1d rw i count) \<le> x - rx
          \<and> x - rx < fst (slice_1d rw i count) + snd (slice_1d rw i count)
          \<and> ry \<le> y \<and> y < ry + rh" by blast
    next
      assume "\<exists>i. 0 \<le> i \<and> i < count \<and> fst (slice_1d rw i count) \<le> x - rx
          \<and> x - rx < fst (slice_1d rw i count) + snd (slice_1d rw i count)
          \<and> ry \<le> y \<and> y < ry + rh"
      then obtain i where i: "0 \<le> i" "i < count" "fst (slice_1d rw i count) \<le> x - rx"
          "x - rx < fst (slice_1d rw i count) + snd (slice_1d rw i count)"
        and y: "ry \<le> y \<and> y < ry + rh" by blast
      from slice_1d_inside [OF assms(1,2) i] y
      show "rx \<le> x \<and> x < rx + rw \<and> ry \<le> y \<and> y < ry + rh" by simp
    qed
  qed
  have disjoint: "i = j"
    if "0 \<le> i" "i < count" "0 \<le> j" "j < count"
      "in_region (slice_region (rx, ry, rw, rh) i count Horizontal) p"
      "in_region (slice_region (rx, ry, rw, rh) j count Horizontal) p" for p i j
  proof (cases p)
    case (Pair x y)
    from that(5,6) show ?thesis unfolding Pair in_slice_region
      using slice_1d_disjoint [OF assms(1,2) that(1-4), of "x - rx"] by blast
  qed
  from cover disjoint show ?thesis unfolding tiles_def Horizontal by blast
next
  case Vertical
  have cover: "in_region (rx, ry, rw, rh) p \<longleftrightarrow>
      (\<exists>i. 0 \<le> i \<and> i < count \<and> in_region (slice_region (rx, ry, rw, rh) i count Vertical) p)"
    for p
  proof (cases p)
    case (Pair x y)
    show ?thesis unfolding Pair in_slice_region in_region_simp
    proof
      assume a: "rx \<le> x \<and> x < rx + rw \<and> ry \<le> y \<and> y < ry + rh"
      then have "0 \<le> y - ry" "y - ry < rh" by simp_all
      from slice_1d_cover [OF assms(1) this] a
      show "\<exists>i. 0 \<le> i \<and> i < count \<and> fst (slice_1d rh i count) \<le> y - ry
          \<and> y - ry < fst (slice_1d rh i count) + snd (slice_1d rh i count)
          \<and> rx \<le> x \<and> x < rx + rw" by blast
    next
      assume "\<exists>i. 0 \<le> i \<and> i < count \<and> fst (slice_1d rh i count) \<le> y - ry
          \<and> y - ry < fst (slice_1d rh i count) + snd (slice_1d rh i count)
          \<and> rx \<le> x \<and> x < rx + rw"
      then obtain i where i: "0 \<le> i" "i < count" "fst (slice_1d rh i count) \<le> y - ry"
          "y - ry < fst (slice_1d rh i count) + snd (slice_1d rh i count)"
        and x: "rx \<le> x \<and> x < rx + rw" by blast
      from slice_1d_inside [OF assms(1,3) i] x
      show "rx \<le> x \<and> x < rx + rw \<and> ry \<le> y \<and> y < ry + rh" by simp
    qed
  qed
  have disjoint: "i = j"
    if "0 \<le> i" "i < count" "0 \<le> j" "j < count"
      "in_region (slice_region (rx, ry, rw, rh) i count Vertical) p"
      "in_region (slice_region (rx, ry, rw, rh) j count Vertical) p" for p i j
  proof (cases p)
    case (Pair x y)
    from that(5,6) show ?thesis unfolding Pair in_slice_region
      using slice_1d_disjoint [OF assms(1,3) that(1-4), of "y - ry"] by blast
  qed
  from cover disjoint show ?thesis unfolding tiles_def Vertical by blast
qed

lemma slice_region_extent:
  assumes "1 \<le> count" "0 \<le> rw" "0 \<le> rh" "0 \<le> i" "i < count"
  shows "0 \<le> region_width (slice_region (rx, ry, rw, rh) i count dir)"
    and "0 \<le> region_height (slice_region (rx, ry, rw, rh) i count dir)"
    and "0 < rw \<Longrightarrow> 0 < rh \<Longrightarrow> (case dir of Horizontal \<Rightarrow> count \<le> rw | Vertical \<Rightarrow> count \<le> rh)
      \<Longrightarrow> 0 < region_width (slice_region (rx, ry, rw, rh) i count dir)
        \<and> 0 < region_height (slice_region (rx, ry, rw, rh) i count dir)"
proof -
  have w: "region_width (slice_region (rx, ry, rw, rh) i count dir)
      = (case dir of Horizontal \<Rightarrow> snd (slice_1d rw i count) | Vertical \<Rightarrow> rw)"
    by (simp add: slice_region_def region_width_def split: direction.splits prod.splits)
  have h: "region_height (slice_region (rx, ry, rw, rh) i count dir)
      = (case dir of Horizontal \<Rightarrow> rh | Vertical \<Rightarrow> snd (slice_1d rh i count))"
    by (simp add: slice_region_def region_height_def split: direction.splits prod.splits)
  show "0 \<le> region_width (slice_region (rx, ry, rw, rh) i count dir)"
    unfolding w using assms slice_1d_size(1) [of count rw i] by (cases dir) simp_all
  show "0 \<le> region_height (slice_region (rx, ry, rw, rh) i count dir)"
    unfolding h using assms slice_1d_size(1) [of count rh i] by (cases dir) simp_all
  assume "0 < rw" "0 < rh" "case dir of Horizontal \<Rightarrow> count \<le> rw | Vertical \<Rightarrow> count \<le> rh"
  then show "0 < region_width (slice_region (rx, ry, rw, rh) i count dir)
        \<and> 0 < region_height (slice_region (rx, ry, rw, rh) i count dir)"
    unfolding w h using assms slice_1d_size(2) [of count rw i] slice_1d_size(2) [of count rh i]
    by (cases dir) simp_all
qed

text \<open>
  Claim C1, as amended. For every canvas width \<open>w > 0\<close>, height \<open>h > 0\<close>,
  \<open>count \<ge> 1\<close> and direction, the regions for the indices \<open>0 \<le> i < count\<close> without a
  split exactly tile the canvas, with no overlap and no gap; every such region has
  non-negative width and height, and positive width and height when \<open>count\<close> is at
  most the canvas length along the direction. With a split of 0 to 100 percent the
  regions tile the split part of the canvas. The three values of the test hold.
\<close>

theorem calculate_background_region_tiles:
  assumes "0 < w" "0 < h" "1 \<le> count"
  shows "tiles (0, 0, w, h) count
      (\<lambda>i. calculate_background_region w h i count dir False sd pct)
    \<and> (\<forall>i. 0 \<le> i \<and> i < count \<longrightarrow>
      0 \<le> region_width (calculate_background_region w h i count dir False sd pct)
      \<and> 0 \<le> region_height (calculate_background_region w h i count dir False sd pct))
    \<and> ((case dir of Horizontal \<Rightarrow> count \<le> w | Vertical \<Rightarrow> count \<le> h) \<longrightarrow>
      (\<forall>i. 0 \<le> i \<and> i < count \<longrightarrow>
        0 < region_width (calculate_background_region w h i count dir False sd pct)
        \<and> 0 < region_height (calculate_background_region w h i count dir False sd pct)))
    \<and> (0 \<le> p \<and> p \<le> 100 \<longrightarrow>
      tiles (split_part w h s p) count
        (\<lambda>i. calculate_background_region w h i count dir True (Some s) (Some p)))
    \<and> calculate_background_region 1280 720 0 2 Horizontal False None None = (0, 0, 640, 720)
    \<and> calculate_background_region 1280 720 1 2 Horizontal False None None = (640, 0, 640, 720)
    \<and> calculate_background_region 1280 720 0 2 Horizontal True (Some Split_left) (Some 50)
      = (0, 0, 320, 720)"
proof -
  have plain: "calculate_background_region w h i count dir False sd pct
      = slice_region (0, 0, w, h) i count dir" for i
    by (simp add: calculate_background_region_def area_to_slice_def split: option.splits)
  from assms have w0: "0 \<le> w" and h0: "0 \<le> h" by simp_all
  have t1: "tiles (0, 0, w, h) count
      (\<lambda>i. calculate_background_region w h i count dir False sd pct)"
    unfolding plain using assms(3) w0 h0 by (rule slice_region_tiles)
  have t2: "\<forall>i. 0 \<le> i \<and> i < count \<longrightarrow>
      0 \<le> region_width (calculate_background_region w h i count dir False sd pct)
      \<and> 0 \<le> region_height (calculate_background_region w h i count dir False sd pct)"
    unfolding plain using slice_region_extent(1,2) [OF assms(3) w0 h0] by blast
  have t3: "(case dir of Horizontal \<Rightarrow> count \<le> w | Vertical \<Rightarrow> count \<le> h) \<longrightarrow>
      (\<forall>i. 0 \<le> i \<and> i < count \<longrightarrow>
        0 < region_width (calculate_background_region w h i count dir False sd pct)
        \<and> 0 < region_height (calculate_background_region w h i count dir False sd pct))"
    unfolding plain using slice_region_extent(3) [OF assms(3) w0 h0 _ _ assms(1,2)] by blast
  have t4: "0 \<le> p \<and> p \<le> 100 \<longrightarrow>
      tiles (split_part w h s p) count
        (\<lambda>i. calculate_background_region w h i count dir True (Some s) (Some p))"
  proof
    assume p: "0 \<le> p \<and> p \<le> 100"
    obtain rx ry rw rh where part: "split_part w h s p = (rx, ry, rw, rh)"
      by (cases "split_part w h s p")
    from p w0 h0 have "0 \<le> w * p div 100" "0 \<le> h * p div 100"
      by (simp_all add: pos_imp_zdiv_nonneg_iff)
    with part w0 h0 have "0 \<le> rw" "0 \<le> rh"
      by (cases s; simp add: split_part_def)+
    with assms(3) have "tiles (rx, ry, rw, rh) count (\<lambda>i. slice_region (rx, ry, rw, rh) i count dir)"
      by (rule slice_region_tiles)
    then show "tiles (split_part w h s p) count
        (\<lambda>i. calculate_background_region w h i count dir True (Some s) (Some p))"
      by (simp add: calculate_background_region_def area_to_slice_def part)
  qed
  have v1: "calculate_background_region 1280 720 0 2 Horizontal False None None = (0, 0, 640, 720)"
    by (simp add: calculate_background_region_def area_to_slice_def slice_region_def
        slice_1d_def)
  have v2: "calculate_background_region 1280 720 1 2 Horizontal False None None = (640, 0, 640, 720)"
    by (simp add: calculate_background_region_def area_to_slice_def slice_region_def
        slice_1d_def)
  have v3: "calculate_background_region 1280 720 0 2 Horizontal True (Some Split_left) (Some 50)
      = (0, 0, 320, 720)"
    by (simp add: calculate_background_region_def area_to_slice_def slice_region_def
        slice_1d_def split_part_def)
  from t1 t2 t3 t4 v1 v2 v3 show ?thesis by (intro conjI)
qed

theorem calculate_background_region_tiles_witness:
  "(0::int) < 10 \<and> (0::int) < 7 \<and> (1::int) \<le> 3 \<and> (3::int) \<le> 7
   \<and> 0 < region_width (calculate_background_region 10 7 1 3 Vertical False None None)
   \<and> 0 < region_height (calculate_background_region 10 7 1 3 Vertical False None None)
   \<and> calculate_background_region 10 7 1 3 Vertical False None None = (0, 2, 10, 2)
   \<and> calculate_background_region 10 7 2 3 Vertical False None None = (0, 4, 10, 3)"
proof -
  have "\<forall>i. 0 \<le> i \<and> i < 3 \<longrightarrow>
      0 < region_width (calculate_background_region 10 7 i 3 Vertical False None None)
      \<and> 0 < region_height (calculate_background_region 10 7 i 3 Vertical False None None)"
    using calculate_background_region_tiles [of 10 7 3 Vertical None None 50 Split_right]
    by simp
  from this [rule_format, of 1]
  have "0 < region_width (calculate_background_region 10 7 1 3 Vertical False None None)
      \<and> 0 < region_height (calculate_background_region 10 7 1 3 Vertical False None None)"
    by simp
  moreover have "calculate_background_region 10 7 1 3 Vertical False None None = (0, 2, 10, 2)"
    "calculate_background_region 10 7 2 3 Vertical False None None = (0, 4, 10, 3)"
    by (simp_all add: calculate_background_region_def area_to_slice_def slice_region_def
        slice_1d_def)
  ultimately show ?thesis by simp
qed

text \<open>
  Claim C1 as stated fails in two places. On a canvas one pixel wide cut in two, the
  first region has width 0. With a split, the two regions of the test cover the left
  640 columns only: the canvas pixel \<open>(640, 0)\<close> lies in neither.
\<close>

theorem calculate_background_region_not_positive:
  "(0::int) < 1 \<and> (1::int) \<le> 2
   \<and> region_width (calculate_background_region 1 1 0 2 Horizontal False None None) = 0
   \<and> in_region (0, 0, 1280, 720) (640, 0)
   \<and> \<not> in_region
        (calculate_background_region 1280 720 0 2 Horizontal True (Some Split_left) (Some 50))
        (640, 0)
   \<and> \<not> in_region
        (calculate_background_region 1280 720 1 2 Horizontal True (Some Split_left) (Some 50))
        (640, 0)"
  by (simp add: calculate_background_region_def area_to_slice_def slice_region_def
      slice_1d_def split_part_def region_width_def in_region_def)

section \<open>Properties of the rectangle pruning\<close>

text \<open>
  Candidates before all other shapes: the list is a run of candidates followed by
  shapes that are not candidates.
\<close>

lemma backmost_positions:
  "filter P (dropWhile P xs) = [] \<longleftrightarrow>
     (\<forall>i j. i < length xs \<and> j < length xs \<and> P (xs ! i) \<and> \<not> P (xs ! j) \<longrightarrow> i < j)"
proof (induction xs)
  case Nil
  show ?case by simp
next
  case (Cons x xs)
  show ?case
  proof (cases "P x")
    case True
    have "(\<forall>i j. i < length (x # xs) \<and> j < length (x # xs)
          \<and> P ((x # xs) ! i) \<and> \<not> P ((x # xs) ! j) \<longrightarrow> i < j)
      \<longleftrightarrow> (\<forall>i j. i < length xs \<and> j < length xs \<and> P (xs ! i) \<and> \<not> P (xs ! j) \<longrightarrow> i < j)"
      (is "?L \<longleftrightarrow> ?R")
    proof
      assume l: ?L
      show ?R
      proof (intro allI impI)
        fix i j assume "i < length xs \<and> j < length xs \<and> P (xs ! i) \<and> \<not> P (xs ! j)"
        with l [rule_format, of "Suc i" "Suc j"] show "i < j" by simp
      qed
    next
      assume r: ?R
      show ?L
      proof (intro allI impI)
        fix i j
        assume a: "i < length (x # xs) \<and> j < length (x # xs)
          \<and> P ((x # xs) ! i) \<and> \<not> P ((x # xs) ! j)"
        with True obtain j' where j: "j = Suc j'" by (cases j) auto
        show "i < j"
        proof (cases i)
          case 0
          with j show ?thesis by simp
        next
          case (Suc i')
          with a j r [rule_format, of i' j'] show ?thesis by simp
        qed
      qed
    qed
    with True Cons.IH show ?thesis by simp
  next
    case False
    have "filter P xs = [] \<longleftrightarrow>
        (\<forall>i j. i < length (x # xs) \<and> j < length (x # xs)
          \<and> P ((x # xs) ! i) \<and> \<not> P ((x # xs) ! j) \<longrightarrow> i < j)"
      (is "?F \<longleftrightarrow> ?L")
    proof
      assume f: ?F
      then have none: "\<forall>y \<in> set xs. \<not> P y" by (simp add: filter_empty_conv)
      show ?L
      proof (intro allI impI)
        fix i j
        assume a: "i < length (x # xs) \<and> j < length (x # xs)
          \<and> P ((x # xs) ! i) \<and> \<not> P ((x # xs) ! j)"
        with False obtain i' where i: "i = Suc i'" by (cases i) auto
        with a have "i' < length xs" "P (xs ! i')" by simp_all
        with none show "i < j" by (metis nth_mem)
      qed
    next
      assume l: ?L
      show ?F
      proof (rule ccontr)
        assume "filter P xs \<noteq> []"
        then obtain y where "y \<in> set xs" "P y" by (auto simp: filter_empty_conv)
        then obtain k where "k < length xs" "P (xs ! k)" by (metis in_set_conv_nth)
        with l [rule_format, of "Suc k" 0] False show False by simp
      qed
    qed
    with False show ?thesis by simp
  qed
qed

lemma backmost_split:
  "filter P (dropWhile P xs) = [] \<Longrightarrow>
   filter P xs = takeWhile P xs \<and> filter (\<lambda>x. \<not> P x) xs = dropWhile P xs"
proof (induction xs)
  case Nil
  show ?case by simp
next
  case (Cons x xs)
  show ?case
  proof (cases "P x")
    case True
    with Cons show ?thesis by simp
  next
    case False
    with Cons.prems have "filter P xs = []" by simp
    then have "\<forall>y \<in> set xs. \<not> P y" by (simp add: filter_empty_conv)
    then have "filter (\<lambda>x. \<not> P x) xs = xs" by simp
    with False \<open>filter P xs = []\<close> show ?thesis by simp
  qed
qed

lemma only_candidates_backmost:
  "only_candidates sw sh shapes \<Longrightarrow> candidates_backmost sw sh shapes"
proof -
  assume "only_candidates sw sh shapes"
  then have "\<forall>s \<in> set shapes. is_candidate sw sh s"
    by (simp add: only_candidates_def list_all_iff)
  then have dw: "dropWhile (is_candidate sw sh) shapes = []" by (induction shapes) simp_all
  show ?thesis unfolding candidates_backmost_def dw by simp
qed

lemma prune_slide_fires:
  assumes "three_backmost sw sh shapes"
  shows "prune_slide sw sh shapes = (drop 3 shapes, 3)"
    and "take 3 shapes = filter (is_candidate sw sh) shapes"
    and "filter (is_candidate sw sh) (drop 3 shapes) = []"
proof -
  let ?P = "is_candidate sw sh"
  from assms have three: "length (filter ?P shapes) = 3"
    and bm: "filter ?P (dropWhile ?P shapes) = []"
    by (simp_all add: three_backmost_def backmost_positions)
  from backmost_split [OF bm] have tw: "filter ?P shapes = takeWhile ?P shapes"
    and dw: "filter (\<lambda>s. \<not> ?P s) shapes = dropWhile ?P shapes" by simp_all
  from three tw have len: "length (takeWhile ?P shapes) = 3" by simp
  have "takeWhile ?P shapes = take (length (takeWhile ?P shapes)) shapes"
    by (rule takeWhile_eq_take)
  with len have take3: "takeWhile ?P shapes = take 3 shapes" by simp
  have "dropWhile ?P shapes = drop (length (takeWhile ?P shapes)) shapes"
    by (rule dropWhile_eq_drop)
  with len have drop3: "dropWhile ?P shapes = drop 3 shapes" by simp
  from three bm dw drop3 show "prune_slide sw sh shapes = (drop 3 shapes, 3)"
    by (simp add: prune_slide_def candidates_backmost_def)
  from tw take3 show "take 3 shapes = filter ?P shapes" by simp
  from bm drop3 show "filter ?P (drop 3 shapes) = []" by simp
qed

lemma prune_slide_skips:
  assumes "\<not> three_backmost sw sh shapes"
  shows "prune_slide sw sh shapes = (shapes, 0)"
proof -
  from assms have "length (filter (is_candidate sw sh) shapes) \<noteq> 3
      \<or> \<not> candidates_backmost sw sh shapes"
    by (simp add: three_backmost_def backmost_positions candidates_backmost_def)
  with only_candidates_backmost [of sw sh shapes] show ?thesis
    by (auto simp: prune_slide_def Let_def)
qed

lemma prune_slide_again:
  "prune_slide sw sh (fst (prune_slide sw sh shapes)) = (fst (prune_slide sw sh shapes), 0)"
proof (cases "three_backmost sw sh shapes")
  case True
  from prune_slide_fires(3) [OF True]
  have "length (filter (is_candidate sw sh) (drop 3 shapes)) \<noteq> 3" by simp
  then have "prune_slide sw sh (drop 3 shapes) = (drop 3 shapes, 0)"
    by (simp add: prune_slide_def)
  with prune_slide_fires(1) [OF True] show ?thesis by simp
next
  case False
  then show ?thesis by (simp add: prune_slide_skips)
qed

lemma remove_again:
  "remove_redundant_marp_white_rectangles (fst (remove_redundant_marp_white_rectangles prs))
     = (fst (remove_redundant_marp_white_rectangles prs), 0)"
proof -
  let ?f = "prune_slide (slide_width prs) (slide_height prs)"
  have "map ?f (map fst (map ?f (slides prs))) = map (\<lambda>s. (fst (?f s), 0)) (slides prs)"
    by (simp add: prune_slide_again)
  then show ?thesis
    by (simp add: remove_redundant_marp_white_rectangles_def Let_def comp_def)
qed

text \<open>
  Claim C6. The pruning pass removes shapes from a slide only when the slide has
  exactly three full-slide solid-white shapes and those three are the back-most
  shapes in z-order; then it removes exactly those three (the first three shapes of
  the slide, none of the remaining shapes being a candidate) and counts 3; in every
  other case it leaves the slide as it is and counts 0. A second run removes nothing,
  on a slide and on a whole presentation.
\<close>

theorem prune_slide_three_backmost:
  "(three_backmost sw sh shapes \<longrightarrow>
      prune_slide sw sh shapes = (drop 3 shapes, 3)
      \<and> take 3 shapes = filter (is_candidate sw sh) shapes
      \<and> filter (is_candidate sw sh) (drop 3 shapes) = [])
   \<and> (\<not> three_backmost sw sh shapes \<longrightarrow> prune_slide sw sh shapes = (shapes, 0))
   \<and> prune_slide sw sh (fst (prune_slide sw sh shapes)) = (fst (prune_slide sw sh shapes), 0)
   \<and> remove_redundant_marp_white_rectangles (fst (remove_redundant_marp_white_rectangles prs))
       = (fst (remove_redundant_marp_white_rectangles prs), 0)"
  using prune_slide_fires [of sw sh shapes] prune_slide_skips [of sw sh shapes]
    prune_slide_again [of sw sh shapes] remove_again [of prs]
  by blast

theorem prune_slide_three_backmost_witness:
  "three_backmost 9144000 6858000 [white_rect, white_rect, white_rect, text_box]
   \<and> prune_slide 9144000 6858000 [white_rect, white_rect, white_rect, text_box]
       = ([text_box], 3)
   \<and> \<not> three_backmost 9144000 6858000 [text_box, white_rect, white_rect, white_rect]
   \<and> prune_slide 9144000 6858000 [text_box, white_rect, white_rect, white_rect]
       = ([text_box, white_rect, white_rect, white_rect], 0)"
proof -
  let ?P = "is_candidate 9144000 6858000"
  have w: "?P white_rect" and t: "\<not> ?P text_box"
    by (simp_all add: is_candidate_def white_rect_def text_box_def)
  have fires: "three_backmost 9144000 6858000 [white_rect, white_rect, white_rect, text_box]"
    unfolding three_backmost_def backmost_positions [symmetric] using w t by simp
  have front: "\<not> three_backmost 9144000 6858000 [text_box, white_rect, white_rect, white_rect]"
    unfolding three_backmost_def backmost_positions [symmetric] using w t by simp
  have "prune_slide 9144000 6858000 [white_rect, white_rect, white_rect, text_box]
      = (drop 3 [white_rect, white_rect, white_rect, text_box], 3)"
    using fires prune_slide_three_backmost
        [of 9144000 6858000 "[white_rect, white_rect, white_rect, text_box]"
          "\<lparr>slide_width = 9144000, slide_height = 6858000, slides = []\<rparr>"]
    by blast
  then have r1: "prune_slide 9144000 6858000 [white_rect, white_rect, white_rect, text_box]
      = ([text_box], 3)" by simp
  have r2: "prune_slide 9144000 6858000 [text_box, white_rect, white_rect, white_rect]
      = ([text_box, white_rect, white_rect, white_rect], 0)"
    using front prune_slide_three_backmost
        [of 9144000 6858000 "[text_box, white_rect, white_rect, white_rect]"
          "\<lparr>slide_width = 9144000, slide_height = 6858000, slides = []\<rparr>"]
    by blast
  from fires front r1 r2 show ?thesis by blast
qed

section \<open>Properties of the orchestrator\<close>

text \<open>
  What the source guards: once the three unguarded steps have returned, the save is
  reached whatever the font normalization and the rectangle pruning do.
\<close>

lemma process_pptx_html_guarded:
  assumes "parse_marp_html c html_path = Some slides_data"
    and "open_presentation c pptx_path = Some p0"
    and "process_native_marp_images c p0 slides_data = Done p1"
    and "widen_text_shapes c p1 = Done p2"
    and "(if run_styled_divs
          then process_styled_divs c p2 slides_data html_path save_rendered_divs
          else Done p2) = Done p3"
  shows "process_pptx_html c html_path pptx_path output_path save_rendered_divs run_styled_divs
    = Save_called output_path
        (swallow (remove_white_rectangles c (swallow (normalize_font_names c p3))))"
  using assms by (simp add: process_pptx_html_def)

text \<open>What it does not guard: an exception of an unguarded step skips the save.\<close>

lemma process_pptx_html_unguarded:
  assumes "parse_marp_html c html_path = Some slides_data"
    and "open_presentation c pptx_path = Some p0"
    and "process_native_marp_images c p0 slides_data = Failed p1"
  shows "process_pptx_html c html_path pptx_path output_path save_rendered_divs run_styled_divs
    = Raised"
  using assms by (simp add: process_pptx_html_def)

text \<open>
  Claim C7. For every input on which the markup parses and the slide package opens,
  \<^verbatim>\<open>process_pptx_html\<close> reaches the save of the package to the output path, even when
  repairs of individual slides or fragments fail inside the native image layout, the
  text-box widening or the styled-div patching, when the styled-div patching is
  switched off, and when the font normalization or the rectangle pruning raise.
\<close>

theorem process_pptx_html_always_saves:
  assumes "parse html_path = Some slides_data" and "opn pptx_path = Some prs"
  shows "\<exists>final.
    process_pptx_html
      (unit_collaborators parse opn native_units widen_units styled_units fonts prune)
      html_path pptx_path output_path save_rendered_divs run_styled_divs
    = Save_called output_path final"
proof -
  let ?c = "unit_collaborators parse opn native_units widen_units styled_units fonts prune"
  let ?p1 = "fold contained (native_units slides_data) prs"
  let ?p2 = "fold contained widen_units ?p1"
  let ?p3 = "if run_styled_divs
    then fold contained (styled_units slides_data html_path save_rendered_divs) ?p2 else ?p2"
  have "process_pptx_html ?c html_path pptx_path output_path save_rendered_divs run_styled_divs
    = Save_called output_path
        (swallow (remove_white_rectangles ?c (swallow (normalize_font_names ?c ?p3))))"
  proof (rule process_pptx_html_guarded)
    show "parse_marp_html ?c html_path = Some slides_data"
      using assms(1) by (simp add: unit_collaborators_def)
    show "open_presentation ?c pptx_path = Some prs"
      using assms(2) by (simp add: unit_collaborators_def)
    show "process_native_marp_images ?c prs slides_data = Done ?p1"
      by (simp add: unit_collaborators_def unit_step_def)
    show "widen_text_shapes ?c ?p1 = Done ?p2"
      by (simp add: unit_collaborators_def unit_step_def)
    show "(if run_styled_divs
          then process_styled_divs ?c ?p2 slides_data html_path save_rendered_divs
          else Done ?p2) = Done ?p3"
      by (simp add: unit_collaborators_def unit_step_def)
  qed
  then show ?thesis by blast
qed

theorem process_pptx_html_always_saves_witness:
  "process_pptx_html
     (unit_collaborators (\<lambda>path. Some ()) (\<lambda>path. Some [0::nat])
        (\<lambda>sd. [\<lambda>p. None, \<lambda>p. Some (1 # p)]) [\<lambda>p. None] (\<lambda>sd html dbg. [\<lambda>p. None])
        (\<lambda>p. Failed (2 # p)) (\<lambda>p. Failed p))
     ''deck.html'' ''raw.pptx'' ''out.pptx'' False True
   = Save_called ''out.pptx'' [2, 1, 0]"
proof -
  let ?c = "unit_collaborators (\<lambda>path. Some ()) (\<lambda>path. Some [0::nat])
        (\<lambda>sd. [\<lambda>p. None, \<lambda>p. Some (1 # p)]) [\<lambda>p. None] (\<lambda>sd html dbg. [\<lambda>p. None])
        (\<lambda>p. Failed (2 # p)) (\<lambda>p. Failed p)"
  from process_pptx_html_always_saves
    [of "\<lambda>path. Some ()" "''deck.html''" "()" "\<lambda>path. Some [0::nat]" "''raw.pptx''" "[0]"
      "\<lambda>sd. [\<lambda>p. None, \<lambda>p. Some (1 # p)]" "[\<lambda>p. None]" "\<lambda>sd html dbg. [\<lambda>p. None]"
      "\<lambda>p. Failed (2 # p)" "\<lambda>p. Failed p" "''out.pptx''" False True]
  obtain final where
    "process_pptx_html ?c ''deck.html'' ''raw.pptx'' ''out.pptx'' False True
      = Save_called ''out.pptx'' final" by auto
  moreover have "process_pptx_html ?c ''deck.html'' ''raw.pptx'' ''out.pptx'' False True
      = Save_called ''out.pptx'' [2, 1, 0]"
    by (simp add: process_pptx_html_def unit_collaborators_def unit_step_def contained_def
        swallow_def)
  ultimately show ?thesis by simp
qed

section \<open>Properties of object-fit cover\<close>

lemma bit_length_numeral:
  "bit_length 0 = 0"
  "bit_length (Suc 0) = 1"
  "bit_length (numeral n) = Suc (bit_length (numeral n div 2))"
  by (subst bit_length.simps, simp)+

lemmas float_eval = round_double_def floor_log2_def pow2_def round_half_even_def Let_def
  trunc_def int_truediv_def int_times_float_def float_div_def bit_length_numeral

text \<open>When the resized image is at least as large as the target, the clamp works.\<close>

lemma crop_box_inside:
  "target_w \<le> sw \<Longrightarrow> target_h \<le> sh \<Longrightarrow>
   box_inside (sw, sh) (crop_box sw sh target_w target_h offsets)"
  by (cases offsets) (auto simp: box_inside_def crop_box_def Let_def)

lemma scale_193: "int_truediv 400 193 = Some (4666942619036783 / 2251799813685248)"
  by (simp add: float_eval)

lemma scale_300: "int_truediv 400 300 = Some (6004799503160661 / 4503599627370496)"
  by (simp add: float_eval)

lemma width_193:
  "int_times_float 193 (4666942619036783 / 2251799813685248)
     = Some (7036874417766399 / 17592186044416)"
  by (simp add: float_eval)

lemma height_300:
  "int_times_float 300 (4666942619036783 / 2251799813685248)
     = Some (2734536690841865 / 4398046511104)"
  by (simp add: float_eval)

lemma cover_size_193_300: "cover_size 400 400 193 300 = Some (399, 621)"
  by (simp add: cover_size_def cover_scale_def scale_193 scale_300 width_193 height_300
      trunc_def)

lemma pct_100: "float_div 100 100 = Some 1" and pct_50: "float_div 50 100 = Some (1 / 2)"
  by (simp_all add: float_eval)

lemma cover_size_200_100: "cover_size 100 100 200 100 = Some (200, 100)"
  by (simp add: cover_size_def cover_scale_def float_eval)

lemma offset_right: "cover_offset_pct 200 100 100 = Some 100"
  by (simp add: cover_offset_pct_def pct_100) (simp add: float_eval)

lemma offset_middle: "cover_offset_pct 100 100 50 = Some 0"
  by (simp add: cover_offset_pct_def pct_50) (simp add: float_eval)

lemma cover_offsets_right:
  "cover_offsets 200 100 100 100 (Pos_pct 100 50) = Some (100, 0)"
  by (simp add: cover_offsets_def offset_right offset_middle)

text \<open>
  Claim C2 says that with \<^verbatim>\<open>object-fit: cover\<close> the source is scaled by
  \<^verbatim>\<open>max(target_w/src_w, target_h/src_h)\<close> and the crop window of target size is kept
  inside the scaled image. The code truncates the floating-point product
  \<^verbatim>\<open>img.width * scale\<close>. Evaluated on a source of 193 by 300 pixels and the default
  target of 400 by 400: the quotient 400/193 rounds down, the product is just below
  400, the resized image is 399 by 621, and the crop box \<open>(0, 110, 400, 510)\<close> reaches
  one column beyond it. On the source of the test (200 by 100, target 100 by 100,
  position 100\% 50\%) the scale is 1 and the crop box \<open>(100, 0, 200, 100)\<close> is the right
  half of the source.
\<close>

theorem cover_crop_beyond_resized_image:
  "cover_crop 400 400 \<lparr>img_width = 193, img_height = 300\<rparr> Pos_default
     = Some ((399, 621), (0, 110, 400, 510))
   \<and> \<not> box_inside (399, 621) (0, 110, 400, 510)
   \<and> cover_crop 100 100 \<lparr>img_width = 200, img_height = 100\<rparr> (Pos_pct 100 50)
     = Some ((200, 100), (100, 0, 200, 100))
   \<and> box_inside (200, 100) (100, 0, 200, 100)"
proof -
  have "cover_crop 400 400 \<lparr>img_width = 193, img_height = 300\<rparr> Pos_default
     = Some ((399, 621), (0, 110, 400, 510))"
    by (simp add: cover_crop_def cover_size_193_300 cover_offsets_def crop_box_def)
  moreover have "cover_crop 100 100 \<lparr>img_width = 200, img_height = 100\<rparr> (Pos_pct 100 50)
     = Some ((200, 100), (100, 0, 200, 100))"
    by (simp add: cover_crop_def cover_size_200_100 cover_offsets_right crop_box_def)
  ultimately show ?thesis by (simp add: box_inside_def)
qed

section \<open>Properties of the alpha mask\<close>

declare quarter_points.simps [simp del]

lemma quarter_step_fst:
  "fst (quarter_step a b (cx, cy)) = cx
   \<or> (1 < cx \<and> fst (quarter_step a b (cx, cy)) = cx - 2)"
  by (simp add: quarter_step_def Let_def)

lemma quarter_step_snd:
  "(snd (quarter_step a b (cx, cy)) = cy + 2
   \<or> (1 < cx \<and> quarter_step a b (cx, cy) = (cx - 2, cy)))"
  by (simp add: quarter_step_def Let_def)

lemma quarter_delta_top: "quarter_delta a b x b = b * b * (x * x)"
proof -
  have eq: "a * a * b * b + b * b * x * x - a * a * (b * b) = b * b * (x * x)"
    by (simp add: algebra_simps)
  have "0 \<le> b * b * (x * x)" by simp
  then show ?thesis unfolding quarter_delta_def eq by (rule abs_of_nonneg)
qed

lemma square_less: "2 \<le> x \<Longrightarrow> (x - 2) * (x - 2) < x * (x::int)"
  by (intro mult_strict_mono') simp_all



lemma find_Some_set: "find P xs = Some x \<Longrightarrow> P x \<and> x \<in> set xs"
  by (induction xs) (auto split: if_splits)

lemma find_not_None: "x \<in> set xs \<Longrightarrow> P x \<Longrightarrow> find P xs \<noteq> None"
  by (induction xs) auto


lemma quarter_points_first:
  assumes "0 \<le> a" "0 \<le> b"
  shows "\<exists>rest. quarter_points a b (a, b mod 2) = (a, b mod 2) # rest"
proof -
  from assms(2) have "b mod 2 \<le> b" by presburger
  with assms(1) show ?thesis
    by (simp add: quarter_points.simps [of a b "(a, b mod 2)"])
qed


lemma quarter_step_top:
  assumes "2 \<le> cx" "cx \<le> a" "0 \<le> b"
  shows "quarter_step a b (cx, b) = (cx - 2, b)"
proof -
  have top: "quarter_delta a b x (b + 2) = a * a * (4 * b + 4) + b * b * (x * x)" for x
  proof -
    have eq: "a * a * (b + 2) * (b + 2) + b * b * x * x - a * a * (b * b)
        = a * a * (4 * b + 4) + b * b * (x * x)"
      by (simp add: algebra_simps)
    have "0 \<le> a * a * (4 * b + 4) + b * b * (x * x)" using assms(3) by simp
    then show ?thesis unfolding quarter_delta_def eq by (rule abs_of_nonneg)
  qed
  from assms have "0 < a * a" by simp
  moreover from assms have "0 < 4 * b + 4" by simp
  ultimately have pos: "0 < a * a * (4 * b + 4)" by (rule mult_pos_pos)
  have "(cx - 2) * (cx - 2) \<le> cx * cx" using square_less [OF assms(1)] by simp
  then have le: "b * b * ((cx - 2) * (cx - 2)) \<le> b * b * (cx * cx)"
    by (intro mult_left_mono) simp_all
  have 1: "quarter_delta a b (cx - 2) b < quarter_delta a b cx (b + 2)"
    using pos le by (simp add: top quarter_delta_top)
  have 2: "quarter_delta a b (cx - 2) b < quarter_delta a b (cx - 2) (b + 2)"
    using pos by (simp add: top quarter_delta_top)
  from 1 2 assms(1) show ?thesis
    by (simp add: quarter_step_def Let_def)
qed

lemma on_quarter_step:
  assumes "on_quarter a b c" "c \<noteq> (a mod 2, b)"
  shows "on_quarter a b (quarter_step a b c)"
proof -
  obtain cx cy where c: "c = (cx, cy)" by (cases c)
  from assms(1) have inv: "a mod 2 \<le> cx" "cx \<le> a" "(a - cx) mod 2 = 0"
      "b mod 2 \<le> cy" "cy \<le> b" "(b - cy) mod 2 = 0"
    by (simp_all add: on_quarter_def c)
  show ?thesis
  proof (cases "cy = b")
    case True
    with assms(2) have "cx \<noteq> a mod 2" by (simp add: c)
    with inv(1,3) have "2 \<le> cx" by presburger
    moreover from inv True have "0 \<le> b" by presburger
    ultimately have "quarter_step a b c = (cx - 2, b)"
      using inv(2) True by (simp add: c quarter_step_top)
    moreover from \<open>2 \<le> cx\<close> inv have "a mod 2 \<le> cx - 2" "(a - (cx - 2)) mod 2 = 0"
      by presburger+
    ultimately show ?thesis using inv True by (simp add: on_quarter_def)
  next
    case False
    with inv have up: "cy + 2 \<le> b" "(b - (cy + 2)) mod 2 = 0" "b mod 2 \<le> cy + 2"
      by presburger+
    have left: "1 < cx \<Longrightarrow> a mod 2 \<le> cx - 2 \<and> (a - (cx - 2)) mod 2 = 0"
      using inv by presburger
    from quarter_step_fst [of a b cx cy] quarter_step_snd [of a b cx cy]
    show ?thesis
      using inv up left by (auto simp: on_quarter_def c)
  qed
qed

lemma quarter_points_on_quarter:
  "on_quarter a b c \<Longrightarrow>
   quarter_points a b c \<noteq> [] \<and> last (quarter_points a b c) = (a mod 2, b)
   \<and> (\<forall>p \<in> set (quarter_points a b c). on_quarter a b p)"
proof (induction a b c rule: quarter_points.induct)
  case (1 a b c)
  note unf = quarter_points.simps [of a b c]
  from "1.prems" have guard: "\<not> (fst c < 0 \<or> b < snd c)"
    by (auto simp: on_quarter_def)
  show ?case
  proof (cases "c = (a mod 2, b)")
    case True
    with guard have "quarter_points a b c = [c]" by (subst unf) simp
    with True "1.prems" show ?thesis by simp
  next
    case False
    with guard have "quarter_points a b c = c # quarter_points a b (quarter_step a b c)"
      by (subst unf) simp
    with "1.IH" [OF guard False on_quarter_step [OF "1.prems" False]] "1.prems"
    show ?thesis by simp
  qed
qed

lemma quarter_points_last:
  assumes "0 \<le> a" "0 \<le> b"
  shows "quarter_points a b (a, b mod 2) \<noteq> []
    \<and> last (quarter_points a b (a, b mod 2)) = (a mod 2, b)"
proof -
  from assms have "on_quarter a b (a, b mod 2)"
    by (simp add: on_quarter_def) presburger
  from quarter_points_on_quarter [OF this] show ?thesis by simp
qed

text \<open>
  On a mask that is one pixel wide or high the corner pixel is drawn: the bound of 2
  below cannot be lowered.
\<close>

lemma ellipse_corner_thin:
  assumes "1 \<le> w" "1 \<le> h" "w = 1 \<or> h = 1"
  shows "ellipse_alpha w h (0, 0) = 255"
proof -
  let ?pts = "quarter_points w h (w, h mod 2)"
  from assms have start: "on_quarter w h (w, h mod 2)"
    by (simp add: on_quarter_def) presburger
  note walk = quarter_points_on_quarter [OF start]
  from walk have "?pts \<noteq> []" and l: "last ?pts = (w mod 2, h)" by simp_all
  then have "(w mod 2, h) \<in> set ?pts" by (metis last_in_set)
  then have "find (\<lambda>p. snd p = h) ?pts \<noteq> None"
    by (rule find_not_None) simp
  then obtain p where f: "find (\<lambda>p. snd p = h) ?pts = Some p" by auto
  from find_Some_set [OF f] walk have p: "snd p = h" "on_quarter w h p" by simp_all
  have "w \<le> fst p"
  proof (cases "w = 1")
    case True
    with p(2) show ?thesis by (simp add: on_quarter_def)
  next
    case False
    with assms have h: "h = 1" by simp
    from assms quarter_points_first [of w h] obtain rest
      where "?pts = (w, h mod 2) # rest" by auto
    with f h have "p = (w, 1)" by simp
    then show ?thesis by simp
  qed
  with assms f have "ellipse_filled w h (0, 0)"
    by (simp add: ellipse_filled_def row_extent_def)
  then show ?thesis by (simp add: ellipse_alpha_def)
qed

text \<open>
  Runs of the drawing: the only pixel of a mask of 1 by 1; the four pixels of a mask of
  2 by 2; on a mask of 200 by 200, the top row is drawn from column 91 on, and the
  left column from row 91 on.
\<close>

lemma ellipse_alpha_runs:
  "ellipse_alpha 1 1 (0, 0) = 255"
  "map (ellipse_alpha 2 2) [(0, 0), (1, 0), (0, 1), (1, 1)] = [0, 255, 255, 255]"
  "map (ellipse_alpha 200 200) [(0, 0), (90, 0), (91, 0), (100, 0), (0, 90), (0, 91)]
     = [0, 0, 255, 255, 0, 255]"
  by code_simp+









end
